theory Spec2Isabelle
  imports
    Complex_Main
    "HOL-Library.Word"
    "HOL-Library.Signed_Division"
    "HOL-Library.Log_Nat"
begin

section \<open>Double-precision arithmetic\<close>

text \<open>
  The experiment computes with C \<open>double\<close>s. A finite double is a real number, and each
  arithmetic operation of the source is the exact operation followed by one rounding. The
  rounding is a parameter \<open>fl\<close> of the model; two roundings are defined: \<open>exact\<close> (no
  rounding, the arithmetic of the reals) and \<open>binary64\<close> (IEEE 754 round to nearest, ties to
  even, 53 significant bits), the one the compiled program runs with. Infinities, NaN and the
  bounded exponent range (overflow, subnormal numbers) are not modelled.
\<close>

type_synonym double = real

definition exact :: "real \<Rightarrow> double" where
  "exact x = x"

text \<open>\<open>expo x\<close> is the binary exponent of a non-zero \<open>x\<close>: \<open>2^e \<le> |x| < 2^(e+1)\<close>.\<close>

definition expo :: "real \<Rightarrow> int" where
  "expo x = (if 1 \<le> \<bar>x\<bar> then int (floorlog 2 (nat \<lfloor>\<bar>x\<bar>\<rfloor>)) - 1
             else - int (floorlog 2 (nat (\<lceil>1 / \<bar>x\<bar>\<rceil> - 1))))"

definition round_half_even :: "real \<Rightarrow> int" where
  "round_half_even y =
     (let n = \<lfloor>y\<rfloor>; r = y - of_int n
      in if r < 1 / 2 then n else if 1 / 2 < r then n + 1 else if even n then n else n + 1)"

definition binary64 :: "real \<Rightarrow> double" where
  "binary64 x =
     (if x = 0 then 0
      else let u = 2 powi (expo x - 52) in of_int (round_half_even (x / u)) * u)"

definition dadd :: "(real \<Rightarrow> double) \<Rightarrow> double \<Rightarrow> double \<Rightarrow> double" where
  "dadd fl x y = fl (x + y)"

definition dsub :: "(real \<Rightarrow> double) \<Rightarrow> double \<Rightarrow> double \<Rightarrow> double" where
  "dsub fl x y = fl (x - y)"

definition dmul :: "(real \<Rightarrow> double) \<Rightarrow> double \<Rightarrow> double \<Rightarrow> double" where
  "dmul fl x y = fl (x * y)"

definition ddiv :: "(real \<Rightarrow> double) \<Rightarrow> double \<Rightarrow> double \<Rightarrow> double" where
  "ddiv fl x y = fl (x / y)"

text \<open>The conversion \<open>(double) n\<close> of an integer.\<close>

definition to_double :: "(real \<Rightarrow> double) \<Rightarrow> int \<Rightarrow> double" where
  "to_double fl n = fl (of_int n)"


section \<open>The problem and the evaluation gateway\<close>

type_synonym size_t = "64 word"
type_synonym point = "double list"

datatype call = Objective | Constraint

text \<open>
  One logged evaluation: which evaluator was called, at which point, and the sum of the two
  evaluation counters at the moment the call was made.
\<close>

datatype evaluation = Evaluation (kind: call) (arg: point) (count_before: size_t)

text \<open>
  The problem descriptor \<open>coco_problem_t\<close> lives in the benchmark library. The record holds
  what the getters of the library return to this file (a field \<open>get_dimension\<close> for
  \<open>coco_problem_get_dimension\<close>, and so on), the two black-box functions of the problem, and
  the trace of evaluations the observer is given.
\<close>

record problem =
  get_dimension :: size_t
  get_number_of_objectives :: nat
  get_number_of_constraints :: nat
  get_smallest_values_of_interest :: point
  get_largest_values_of_interest :: point
  get_initial_solution :: point
  objective :: "point \<Rightarrow> double list"
  constraint :: "point \<Rightarrow> double list"
  get_evaluations :: size_t
  get_evaluations_constraints :: size_t
  final_target_hit :: bool
  history :: "evaluation list"

text \<open>
  Modelled from the spec: \<open>coco_evaluate_function\<close> and \<open>coco_evaluate_constraint\<close> belong to
  the benchmark library, which is not part of the sources. As the spec's Evaluation Gateway
  says, an evaluation returns the values at the point, increments the problem's evaluation
  counter of its kind, and hands the point to the logger. How an evaluation moves the
  final-target flag is the library's business; the model leaves the flag alone.
\<close>

definition coco_evaluate_function :: "point \<Rightarrow> problem \<Rightarrow> double list \<times> problem" where
  "coco_evaluate_function x p =
     (objective p x,
      p\<lparr>get_evaluations := get_evaluations p + 1,
        history := history p @
          [Evaluation Objective x (get_evaluations p + get_evaluations_constraints p)]\<rparr>)"

text \<open>
  Modelled from the spec: the constraint evaluator of the library, as the spec's Evaluation
  Gateway describes it.
\<close>

definition coco_evaluate_constraint :: "point \<Rightarrow> problem \<Rightarrow> double list \<times> problem" where
  "coco_evaluate_constraint x p =
     (constraint p x,
      p\<lparr>get_evaluations_constraints := get_evaluations_constraints p + 1,
        history := history p @
          [Evaluation Constraint x (get_evaluations p + get_evaluations_constraints p)]\<rparr>)"

text \<open>
  The two static functions of the source forward to the library for the global \<open>PROBLEM\<close>;
  the global is the state that is passed along.
\<close>

definition evaluate_function :: "point \<Rightarrow> problem \<Rightarrow> double list \<times> problem" where
  "evaluate_function x p = coco_evaluate_function x p"

definition evaluate_constraint :: "point \<Rightarrow> problem \<Rightarrow> double list \<times> problem" where
  "evaluate_constraint x p = coco_evaluate_constraint x p"

text \<open>
  The ways in which the process ends abnormally: an access outside an array, a failed
  \<open>assert\<close>, the \<open>coco_error\<close> of the restart loop, and an exception that no handler catches
  (\<open>main\<close> has no handler, so such an exception ends the process).
\<close>

datatype failure =
    Out_of_bounds
  | Assertion_failed
  | Evaluations_decreased
  | Uncaught_throwable


section \<open>Grid search\<close>

text \<open>
  The inner \<open>for (j = 1; j < dimension; j++)\<close> of \<open>my_grid_search\<close>: the first index from \<open>j\<close>
  on whose node is below \<open>max_nodes\<close> is incremented, the nodes before it are reset to 0, and
  the loop is left with that \<open>j\<close>; when there is none, the loop ends with \<open>j = dimension\<close>.
\<close>

function next_level :: "int \<Rightarrow> nat \<Rightarrow> int list \<Rightarrow> nat \<Rightarrow> int list \<times> nat" where
  "next_level max_nodes dimension nodes j =
     (if j < dimension then
        (if nodes ! j < max_nodes
         then (replicate j 0 @ drop j (nodes[j := nodes ! j + 1]), j)
         else next_level max_nodes dimension nodes (Suc j))
      else (nodes, j))"
  by pat_completeness auto
termination
  by (relation "measure (\<lambda>(max_nodes, dimension, nodes, j). dimension - j)") auto

declare next_level.simps [simp del]

definition grid_point :: "(real \<Rightarrow> double) \<Rightarrow> nat \<Rightarrow> point \<Rightarrow> point \<Rightarrow> int list \<Rightarrow> point" where
  "grid_point fl dimension lower_bounds grid_step nodes =
     map (\<lambda>j. dadd fl (lower_bounds ! j) (dmul fl (grid_step ! j) (to_double fl (nodes ! j))))
       [0..<dimension]"

text \<open>
  The \<open>while (evaluations < max_budget)\<close> loop. \<open>evaluations\<close> never exceeds \<open>max_budget\<close> and
  a node never exceeds \<open>max_nodes\<close>, so the \<open>size_t\<close> counter is a \<open>nat\<close> and the \<open>long\<close> nodes
  are \<open>int\<close>s: no operation on them can wrap. The source reads \<open>nodes[0]\<close> after the
  evaluation; with \<open>dimension = 0\<close> that read is out of bounds.
\<close>

function grid_loop ::
  "(real \<Rightarrow> double) \<Rightarrow> nat \<Rightarrow> int \<Rightarrow> nat \<Rightarrow> point \<Rightarrow> point \<Rightarrow> nat \<Rightarrow> int list \<Rightarrow> problem
    \<Rightarrow> failure + problem" where
  "grid_loop fl dimension max_nodes max_budget lower_bounds grid_step evaluations nodes p =
     (if evaluations < max_budget then
        (let x = grid_point fl dimension lower_bounds grid_step nodes;
             p' = snd (evaluate_function x p);
             evaluations' = evaluations + 1
         in if dimension = 0 then Inl Out_of_bounds
            else if nodes ! 0 < max_nodes then
              grid_loop fl dimension max_nodes max_budget lower_bounds grid_step evaluations'
                (nodes[0 := nodes ! 0 + 1]) p'
            else if max_nodes > 0 then
              (let (nodes', j) = next_level max_nodes dimension nodes 1
               in if j = dimension \<and> nodes' ! (j - 1) = max_nodes then Inr p'
                  else grid_loop fl dimension max_nodes max_budget lower_bounds grid_step
                         evaluations' nodes' p')
            else
              grid_loop fl dimension max_nodes max_budget lower_bounds grid_step evaluations'
                nodes p')
      else Inr p)"
  by pat_completeness auto
termination
  by (relation "measure (\<lambda>(fl, dimension, max_nodes, max_budget, lower_bounds, grid_step,
        evaluations, nodes, p). max_budget - evaluations)") auto

declare grid_loop.simps [simp del]

text \<open>
  \<open>my_grid_search\<close>. The value of \<open>(long) floor(pow((double) max_budget, 1.0 / (double)
  dimension))\<close> comes from the platform's mathematical library and is the parameter
  \<open>floor_pow\<close>. The function pointer \<open>evaluate\<close> is the gateway \<open>evaluate_function\<close>; the
  number of objectives only sizes the result buffer. The initialisation loop reads
  \<open>dimension\<close> entries of both bound vectors.
\<close>

definition my_grid_search ::
  "(real \<Rightarrow> double) \<Rightarrow> int \<Rightarrow> nat \<Rightarrow> point \<Rightarrow> point \<Rightarrow> nat \<Rightarrow> problem \<Rightarrow> failure + problem" where
  "my_grid_search fl floor_pow dimension lower_bounds upper_bounds max_budget p =
     (let max_nodes = (if floor_pow - 1 < 1 then 1 else floor_pow - 1)
      in if length lower_bounds < dimension \<or> length upper_bounds < dimension
         then Inl Out_of_bounds
         else
           let nodes = replicate dimension 0;
               grid_step = map (\<lambda>j. ddiv fl (dsub fl (upper_bounds ! j) (lower_bounds ! j))
                                      (to_double fl max_nodes)) [0..<dimension]
           in grid_loop fl dimension max_nodes max_budget lower_bounds grid_step 0 nodes p)"

text \<open>A problem nobody has evaluated yet, for the concrete runs below.\<close>

definition fresh_problem :: "nat \<Rightarrow> nat \<Rightarrow> point \<Rightarrow> point \<Rightarrow> problem" where
  "fresh_problem n m lower upper =
     \<lparr>get_dimension = of_nat (length lower), get_number_of_objectives = n, get_number_of_constraints = m,
      get_smallest_values_of_interest = lower, get_largest_values_of_interest = upper,
      get_initial_solution = lower,
      objective = (\<lambda>x. replicate n (sum_list x)),
      constraint = (\<lambda>x. replicate m (sum_list x - 1)),
      get_evaluations = 0, get_evaluations_constraints = 0, final_target_hit = False,
      history = []\<rparr>"

section \<open>Random search\<close>

text \<open>
  \<open>coco_random_uniform\<close> belongs to the benchmark library; it is the parameter \<open>uniform\<close>,
  a function from the generator's state to the number drawn and the next state.

  The inner loop \<open>for (j = 0; j < dimension; ++j)\<close> of \<open>my_random_search\<close> writes the
  coordinates of the buffer \<open>x\<close> one by one, each from one draw.
\<close>

function random_point ::
  "(real \<Rightarrow> double) \<Rightarrow> ('g \<Rightarrow> double \<times> 'g) \<Rightarrow> nat \<Rightarrow> point \<Rightarrow> point \<Rightarrow> nat \<Rightarrow> point \<Rightarrow> 'g
    \<Rightarrow> point \<times> 'g" where
  "random_point fl uniform dimension lower_bounds upper_bounds j x g =
     (if j < dimension then
        (let range = dsub fl (upper_bounds ! j) (lower_bounds ! j);
             (u, g') = uniform g
         in random_point fl uniform dimension lower_bounds upper_bounds (Suc j)
              (x[j := dadd fl (lower_bounds ! j) (dmul fl u range)]) g')
      else (x, g))"
  by pat_completeness auto
termination
  by (relation "measure (\<lambda>(fl, uniform, dimension, lower_bounds, upper_bounds, j, x, g).
        dimension - j)") auto

declare random_point.simps [simp del]

text \<open>
  The loop \<open>for (i = 0; i < max_budget; ++i)\<close>: one point, one objective evaluation and, when
  the problem has constraints, one constraint evaluation of the same buffer.
\<close>

function random_loop ::
  "(real \<Rightarrow> double) \<Rightarrow> ('g \<Rightarrow> double \<times> 'g) \<Rightarrow> nat \<Rightarrow> nat \<Rightarrow> point \<Rightarrow> point \<Rightarrow> nat \<Rightarrow> nat
    \<Rightarrow> point \<Rightarrow> problem \<Rightarrow> 'g \<Rightarrow> problem \<times> 'g" where
  "random_loop fl uniform dimension number_of_constraints lower_bounds upper_bounds max_budget
     i x p g =
     (if i < max_budget then
        (let (x', g') = random_point fl uniform dimension lower_bounds upper_bounds 0 x g;
             p1 = snd (evaluate_function x' p);
             p2 = (if number_of_constraints > 0 then snd (evaluate_constraint x' p1) else p1)
         in random_loop fl uniform dimension number_of_constraints lower_bounds upper_bounds
              max_budget (Suc i) x' p2 g')
      else (p, g))"
  by pat_completeness auto
termination
  by (relation "measure (\<lambda>(fl, uniform, dimension, number_of_constraints, lower_bounds,
        upper_bounds, max_budget, i, x, p, g). max_budget - i)") auto

declare random_loop.simps [simp del]

text \<open>
  \<open>my_random_search\<close>. The function pointers \<open>evaluate_func\<close> and \<open>evaluate_cons\<close> are the two
  gateways of the file. The buffer \<open>x\<close> is allocated with \<open>dimension\<close> entries, all of them
  written before the first evaluation. The first round reads \<open>dimension\<close> entries of both
  bound vectors.
\<close>

definition my_random_search ::
  "(real \<Rightarrow> double) \<Rightarrow> ('g \<Rightarrow> double \<times> 'g) \<Rightarrow> nat \<Rightarrow> nat \<Rightarrow> point \<Rightarrow> point \<Rightarrow> nat
    \<Rightarrow> problem \<Rightarrow> 'g \<Rightarrow> failure + problem \<times> 'g" where
  "my_random_search fl uniform dimension number_of_constraints lower_bounds upper_bounds
     max_budget p g =
     (if 0 < max_budget \<and> (length lower_bounds < dimension \<or> length upper_bounds < dimension)
      then Inl Out_of_bounds
      else Inr (random_loop fl uniform dimension number_of_constraints lower_bounds upper_bounds
                  max_budget 0 (replicate dimension 0) p g))"


section \<open>Directed search with the external solver\<close>

text \<open>
  What can be thrown inside the \<open>try\<close> block of \<open>my_search\<close>: the exception of the two wrappers
  (the class \<open>BudgetExhaustedException\<close> of the source, derived from \<open>std::exception\<close>), any
  other exception derived from \<open>std::exception\<close> (with the text of \<open>what()\<close>), and an object
  of a type that is not derived from \<open>std::exception\<close>.
\<close>

datatype exception = BudgetExhaustedException | Std_exception string | Other_throwable

text \<open>
  Modelled from the spec: the solver \<open>es::rayes::RayEs\<close> is not part of the sources. The spec
  describes it as a black box that is handed the two evaluation callables, the bounds and
  an initial point, and whose \<open>run()\<close> either produces a termination criterion or surfaces a
  failure; all it does to the problem goes through the callables. A solver is therefore a
  strategy tree: it returns (with its termination criterion as text), throws an exception
  derived from \<open>std::exception\<close> (with its message), throws an object of another type, or
  calls one of the two callables at a point and goes on according to the value returned.
  An exception thrown by a callable unwinds the solver. Every run of such a solver ends.
\<close>

datatype solver =
    Terminated string
  | Throws string
  | Throws_other
  | Eval_func point "double \<Rightarrow> solver"
  | Eval_cons point "double list \<Rightarrow> solver"

text \<open>
  The two lambdas of \<open>my_search\<close>. Both compare the sum of the problem's two evaluation
  counters (a \<open>size_t\<close> sum) with \<open>max_budget\<close>, copy \<open>dimension\<close> coordinates of the argument
  into the buffer (the solver hands over vectors of that size) and evaluate the buffer.
\<close>

definition evalConsWrapper ::
  "size_t \<Rightarrow> nat \<Rightarrow> nat \<Rightarrow> point \<Rightarrow> problem \<Rightarrow> exception + double list \<times> problem" where
  "evalConsWrapper max_budget dimension number_of_constraints xVec p =
     (if get_evaluations p + get_evaluations_constraints p > max_budget
      then Inl BudgetExhaustedException
      else
        let x = map (\<lambda>i. xVec ! i) [0..<dimension];
            (constraints_values, p') = evaluate_constraint x p
        in Inr (map (\<lambda>i. constraints_values ! i) [0..<number_of_constraints], p'))"

definition evalFuncWrapper ::
  "size_t \<Rightarrow> nat \<Rightarrow> point \<Rightarrow> problem \<Rightarrow> exception + double \<times> problem" where
  "evalFuncWrapper max_budget dimension xVec p =
     (if get_evaluations p + get_evaluations_constraints p > max_budget
      then Inl BudgetExhaustedException
      else
        let x = map (\<lambda>i. xVec ! i) [0..<dimension];
            (functions_values, p') = evaluate_function x p
        in Inr (functions_values ! 0, p'))"

text \<open>\<open>solver.run()\<close> with the two wrappers as callables.\<close>

primrec solver_run :: "solver \<Rightarrow> size_t \<Rightarrow> nat \<Rightarrow> nat \<Rightarrow> problem \<Rightarrow> (exception + string) \<times> problem" where
  "solver_run (Terminated info) max_budget dimension number_of_constraints p = (Inr info, p)"
| "solver_run (Throws what) max_budget dimension number_of_constraints p =
     (Inl (Std_exception what), p)"
| "solver_run Throws_other max_budget dimension number_of_constraints p =
     (Inl Other_throwable, p)"
| "solver_run (Eval_func xVec continue) max_budget dimension number_of_constraints p =
     (case evalFuncWrapper max_budget dimension xVec p of
        Inl e \<Rightarrow> (Inl e, p)
      | Inr (y, p') \<Rightarrow> solver_run (continue y) max_budget dimension number_of_constraints p')"
| "solver_run (Eval_cons xVec continue) max_budget dimension number_of_constraints p =
     (case evalConsWrapper max_budget dimension number_of_constraints xVec p of
        Inl e \<Rightarrow> (Inl e, p)
      | Inr (y, p') \<Rightarrow> solver_run (continue y) max_budget dimension number_of_constraints p')"

text \<open>
  How \<open>my_search\<close> got past its \<open>try\<close> statement: the solver returned, or one of the two
  \<open>catch\<close> clauses caught what was thrown.
\<close>

datatype exit_path = Solver_returned | Budget_exhausted | Solver_failed

text \<open>
  \<open>my_search\<close>: the two assertions, the warm-up pair at the initial solution, then the solver
  inside \<open>try\<close>. The parameter \<open>RayEs\<close> is the solver's constructor. The first \<open>catch\<close> clause
  takes \<open>BudgetExhaustedException\<close>, the second everything else that is derived from
  \<open>std::exception\<close>; there is no third clause, so an object of another type leaves
  \<open>my_search\<close>. The result has two parts. The first is how \<open>my_search\<close> ended: with a failure
  (it did not return), or normally, with the way the \<open>try\<close> statement was passed and the
  lines printed. The second is the global \<open>PROBLEM\<close> as \<open>my_search\<close> leaves it.
\<close>

definition my_search ::
  "(point \<Rightarrow> point \<Rightarrow> point \<Rightarrow> solver) \<Rightarrow> nat \<Rightarrow> nat \<Rightarrow> nat \<Rightarrow> point \<Rightarrow> point \<Rightarrow> size_t
    \<Rightarrow> problem \<Rightarrow> (failure + exit_path \<times> string list) \<times> problem" where
  "my_search RayEs dimension number_of_objectives number_of_constraints lower_bounds
     upper_bounds max_budget p =
     (if number_of_objectives \<noteq> 1 then (Inl Assertion_failed, p)
      else if \<not> number_of_constraints > 0 then (Inl Assertion_failed, p)
      else
        let x = get_initial_solution p;
            p1 = snd (evaluate_constraint x p);
            p2 = snd (evaluate_function x p1);
            lbnds = map (\<lambda>i. lower_bounds ! i) [0..<dimension];
            ubnds = map (\<lambda>i. upper_bounds ! i) [0..<dimension];
            rayInit = map (\<lambda>i. get_initial_solution p2 ! i) [0..<dimension]
        in case solver_run (RayEs lbnds ubnds rayInit) max_budget dimension number_of_constraints p2 of
             (Inr info, p3) \<Rightarrow>
               (Inr (Solver_returned, [''Termination criterion: '' @ info @ ''.'']), p3)
           | (Inl BudgetExhaustedException, p3) \<Rightarrow> (Inr (Budget_exhausted, []), p3)
           | (Inl (Std_exception what), p3) \<Rightarrow>
               (Inr (Solver_failed, [''unexpected error: '' @ what]), p3)
           | (Inl Other_throwable, p3) \<Rightarrow> (Inl Uncaught_throwable, p3))"

section \<open>The restart loop of the experiment\<close>

definition BUDGET_MULTIPLIER :: size_t where
  "BUDGET_MULTIPLIER = 100000"

definition INDEPENDENT_RESTARTS :: nat where
  "INDEPENDENT_RESTARTS = 0"

text \<open>What the restart loop does that can be seen from outside: a call of the search
  strategy with its budget, and the warning with the two numbers it prints.\<close>

datatype driver_event = Invoked size_t | Warned size_t size_t

text \<open>
  A search strategy as the loop calls it: dimension, number of objectives, number of
  constraints, the two bound vectors and the budget; it works on the global \<open>PROBLEM\<close> and
  may abort the process.
\<close>

type_synonym strategy =
  "nat \<Rightarrow> nat \<Rightarrow> nat \<Rightarrow> point \<Rightarrow> point \<Rightarrow> size_t \<Rightarrow> problem \<Rightarrow> failure + problem"

text \<open>
  \<open>long evaluations_remaining = (long) (dimension * BUDGET_MULTIPLIER) - (long)
  evaluations_done\<close>: a \<open>size_t\<close> product and sum, and a subtraction of \<open>long\<close>s. All are 64
  bits wide, the casts keep the bits, and \<open>evaluations_remaining\<close> is read as a signed
  value where it is compared with 0.
\<close>

definition evaluations_remaining :: "size_t \<Rightarrow> problem \<Rightarrow> 64 word" where
  "evaluations_remaining multiplier p =
     get_dimension p * multiplier - (get_evaluations p + get_evaluations_constraints p)"

text \<open>
  The loop \<open>for (run = 1; run <= 1 + INDEPENDENT_RESTARTS; run++)\<close> of
  \<open>example_experiment\<close>, for a search strategy, a budget multiplier and a number of restarts.
  \<open>coco_error\<close> ends the process: the loop ends with the failure \<open>Evaluations_decreased\<close>.
  The number of restarts is a small constant, so \<open>run\<close> is a \<open>nat\<close>. The result is what
  the loop did (the events so far come first) and either the failure that ended the process
  or the problem as the loop left it.
\<close>

function restart_loop ::
  "strategy \<Rightarrow> size_t \<Rightarrow> nat \<Rightarrow> nat \<Rightarrow> problem \<Rightarrow> driver_event list
    \<Rightarrow> driver_event list \<times> (failure + problem)" where
  "restart_loop search multiplier independent_restarts run p events =
     (if run \<le> 1 + independent_restarts then
        (let dimension = get_dimension p;
             evaluations_done = get_evaluations p + get_evaluations_constraints p;
             remaining = evaluations_remaining multiplier p
         in if (final_target_hit p \<and> get_number_of_constraints p = 0) \<or> remaining \<le>s 0
            then (events, Inr p)
            else
              case search (unat dimension) (get_number_of_objectives p)
                     (get_number_of_constraints p) (get_smallest_values_of_interest p)
                     (get_largest_values_of_interest p) remaining p of
                Inl f \<Rightarrow> (events @ [Invoked remaining], Inl f)
              | Inr p' \<Rightarrow>
                  if get_evaluations p' = evaluations_done
                  then (events @ [Invoked remaining,
                                   Warned evaluations_done (dimension * multiplier)], Inr p')
                  else if get_evaluations p' + get_evaluations_constraints p' < evaluations_done
                  then (events @ [Invoked remaining], Inl Evaluations_decreased)
                  else restart_loop search multiplier independent_restarts (run + 1) p'
                         (events @ [Invoked remaining]))
      else (events, Inr p))"
  by pat_completeness auto
termination
  by (relation "measure (\<lambda>(search, multiplier, independent_restarts, run, p, events).
        2 + independent_restarts - run)") auto

declare restart_loop.simps [simp del]

text \<open>The strategy the source calls: \<open>my_search\<close>; what it prints is dropped here.\<close>

definition directed_search :: "(point \<Rightarrow> point \<Rightarrow> point \<Rightarrow> solver) \<Rightarrow> strategy" where
  "directed_search RayEs dimension number_of_objectives number_of_constraints lower_bounds
     upper_bounds max_budget p =
     (case my_search RayEs dimension number_of_objectives number_of_constraints lower_bounds
             upper_bounds max_budget p of
        (Inl f, p') \<Rightarrow> Inl f
      | (Inr (path, printed), p') \<Rightarrow> Inr p')"


section \<open>Timing\<close>

text \<open>
  The line \<open>"d=%lu done in %.2e seconds/evaluation\n"\<close>, kept as the two values it is
  formatted from.
\<close>

datatype summary = Summary size_t double

record timing_data_t =
  number_of_dimensions :: nat
  current_idx :: nat
  outputs :: "summary option list"
  previous_dimension :: size_t
  cumulative_evaluations :: size_t
  start_time :: int
  overall_start_time :: int

text \<open>
  The wall clock is a parameter: \<open>clock k\<close> is what the \<open>k\<close>-th call of \<open>time()\<close> of the run
  returns, in seconds. The functions take the number of calls made so far and return it
  updated. \<open>difftime\<close> gives the difference of two readings as a double.
\<close>

definition difftime :: "(real \<Rightarrow> double) \<Rightarrow> int \<Rightarrow> int \<Rightarrow> double" where
  "difftime fl time1 time0 = to_double fl (time1 - time0)"

text \<open>
  \<open>timing_data_initialize\<close>. The index of the last dimension of the suite, which the source
  decodes from the suite's last problem index with the library, is the parameter
  \<open>dimension_idx\<close>.
\<close>

definition timing_data_initialize :: "(nat \<Rightarrow> int) \<Rightarrow> nat \<Rightarrow> nat \<Rightarrow> timing_data_t \<times> nat" where
  "timing_data_initialize clock dimension_idx tick =
     (\<lparr>number_of_dimensions = dimension_idx + 1,
       current_idx = 0,
       outputs = replicate (dimension_idx + 1) None,
       previous_dimension = 0,
       cumulative_evaluations = 0,
       start_time = clock tick,
       overall_start_time = clock (tick + 1)\<rparr>, tick + 2)"

text \<open>
  The block \<open>Output existing timing information\<close> of \<open>timing_data_time_problem\<close>. The array
  \<open>output\<close> (the field \<open>outputs\<close>) has \<open>number_of_dimensions\<close> slots; a write past them is out of bounds.
\<close>

definition output_existing ::
  "(real \<Rightarrow> double) \<Rightarrow> (nat \<Rightarrow> int) \<Rightarrow> timing_data_t \<Rightarrow> nat \<Rightarrow> failure + timing_data_t \<times> nat" where
  "output_existing fl clock timing_data tick =
     (if cumulative_evaluations timing_data > 0 then
        (let now = clock tick;
             elapsed_seconds =
               ddiv fl (difftime fl now (start_time timing_data))
                 (to_double fl (uint (cumulative_evaluations timing_data)))
         in if current_idx timing_data < length (outputs timing_data)
            then Inr (timing_data
                   \<lparr>outputs := (outputs timing_data)
                      [current_idx timing_data :=
                         Some (Summary (previous_dimension timing_data) elapsed_seconds)],
                    current_idx := current_idx timing_data + 1\<rparr>, tick + 1)
            else Inl Out_of_bounds)
      else Inr (timing_data, tick))"

text \<open>\<open>timing_data_time_problem\<close>; \<open>None\<close> is the \<open>NULL\<close> problem.\<close>

fun timing_data_time_problem ::
  "(real \<Rightarrow> double) \<Rightarrow> (nat \<Rightarrow> int) \<Rightarrow> timing_data_t \<Rightarrow> problem option \<Rightarrow> nat
    \<Rightarrow> failure + timing_data_t \<times> nat" where
  "timing_data_time_problem fl clock timing_data None tick =
     output_existing fl clock timing_data tick"
| "timing_data_time_problem fl clock timing_data (Some problem) tick =
     (if previous_dimension timing_data \<noteq> get_dimension problem then
        (case output_existing fl clock timing_data tick of
           Inl f \<Rightarrow> Inl f
         | Inr (timing_data', tick') \<Rightarrow>
             Inr (timing_data'
                    \<lparr>previous_dimension := get_dimension problem,
                     cumulative_evaluations := get_evaluations problem,
                     start_time := clock tick'\<rparr>, tick' + 1))
      else
        Inr (timing_data
               \<lparr>cumulative_evaluations :=
                  cumulative_evaluations timing_data + get_evaluations problem\<rparr>, tick))"

text \<open>
  The cast \<open>(int) elapsed_seconds\<close> drops the fraction; \<open>int\<close> has 32 bits. For a value whose
  integer part is outside the range of \<open>int\<close> the language leaves the cast undefined; the
  conversion instruction of x86-64 gives the least \<open>int\<close> then, and the model takes this
  value.
\<close>

definition to_int :: "double \<Rightarrow> int" where
  "to_int x =
     (let t = (if 0 \<le> x then \<lfloor>x\<rfloor> else \<lceil>x\<rceil>)
      in if - (2 ^ 31) \<le> t \<and> t < 2 ^ 31 then t else - (2 ^ 31))"

text \<open>
  \<open>timing_data_finalize\<close>: the lines printed and the hours, minutes and seconds of the last
  line. The three are \<open>int\<close>s computed from the cast: the divisions are C's, which truncate,
  and with the cast in the range of \<open>int\<close> no quotient, remainder, product or difference
  leaves that range.
\<close>

definition timing_data_finalize ::
  "(real \<Rightarrow> double) \<Rightarrow> (nat \<Rightarrow> int) \<Rightarrow> timing_data_t \<Rightarrow> nat
    \<Rightarrow> failure + summary list \<times> int \<times> int \<times> int" where
  "timing_data_finalize fl clock timing_data tick =
     (case timing_data_time_problem fl clock timing_data None tick of
        Inl f \<Rightarrow> Inl f
      | Inr (timing_data', tick') \<Rightarrow>
          let now = clock tick';
              elapsed_seconds = difftime fl now (overall_start_time timing_data');
              printed = List.map_filter (\<lambda>x. x)
                          (take (number_of_dimensions timing_data') (outputs timing_data'));
              hours = to_int elapsed_seconds sdiv 3600;
              minutes = (to_int elapsed_seconds smod 3600) sdiv 60;
              seconds = to_int elapsed_seconds - hours * 3600 - minutes * 60
          in Inr (printed, hours, minutes, seconds))"

text \<open>
  The calls the experiment makes to the timing functions: initialisation, one call for
  each problem it has processed, and the finalisation.
\<close>

fun time_problems ::
  "(real \<Rightarrow> double) \<Rightarrow> (nat \<Rightarrow> int) \<Rightarrow> timing_data_t \<Rightarrow> problem list \<Rightarrow> nat
    \<Rightarrow> failure + timing_data_t \<times> nat" where
  "time_problems fl clock timing_data [] tick = Inr (timing_data, tick)"
| "time_problems fl clock timing_data (problem # problems) tick =
     (case timing_data_time_problem fl clock timing_data (Some problem) tick of
        Inl f \<Rightarrow> Inl f
      | Inr (timing_data', tick') \<Rightarrow> time_problems fl clock timing_data' problems tick')"

definition timing_of_stream ::
  "(real \<Rightarrow> double) \<Rightarrow> (nat \<Rightarrow> int) \<Rightarrow> nat \<Rightarrow> problem list
    \<Rightarrow> failure + summary list \<times> int \<times> int \<times> int" where
  "timing_of_stream fl clock dimension_idx problems =
     (let (timing_data, tick) = timing_data_initialize clock dimension_idx 0
      in case time_problems fl clock timing_data problems tick of
           Inl f \<Rightarrow> Inl f
         | Inr (timing_data', tick') \<Rightarrow> timing_data_finalize fl clock timing_data' tick')"

section \<open>The loop over the suite\<close>

definition nInstances :: int where
  "nInstances = 15"

text \<open>
  The \<open>while\<close> loop of \<open>example_experiment\<close> over the problems that
  \<open>coco_suite_get_next_problem\<close> hands out, here the list \<open>suite\<close>: a problem outside the
  selected functions is skipped, the others go through the restart loop and are then fed
  to the timing. \<open>cnt\<close> and the two function numbers are \<open>int\<close>s far below the range of the
  type. A failure ends the process.
\<close>

fun suite_loop ::
  "strategy \<Rightarrow> (real \<Rightarrow> double) \<Rightarrow> (nat \<Rightarrow> int) \<Rightarrow> int \<Rightarrow> int \<Rightarrow> problem list \<Rightarrow> size_t \<Rightarrow> int
    \<Rightarrow> timing_data_t \<Rightarrow> nat \<Rightarrow> failure + timing_data_t \<times> nat" where
  "suite_loop search fl clock firstFunction lastFunction [] prevDimension cnt timing_data tick =
     Inr (timing_data, tick)"
| "suite_loop search fl clock firstFunction lastFunction (PROBLEM # suite) prevDimension cnt
     timing_data tick =
     (let dimension = get_dimension PROBLEM;
          cnt1 = (if dimension \<noteq> prevDimension then 1 else cnt);
          good = ((firstFunction - 1) * nInstances < cnt1 \<and> cnt1 < lastFunction * nInstances + 1)
      in if \<not> good
         then suite_loop search fl clock firstFunction lastFunction suite dimension (cnt1 + 1)
                timing_data tick
         else
           case snd (restart_loop search BUDGET_MULTIPLIER INDEPENDENT_RESTARTS 1 PROBLEM []) of
             Inl f \<Rightarrow> Inl f
           | Inr PROBLEM' \<Rightarrow>
               (case timing_data_time_problem fl clock timing_data (Some PROBLEM') tick of
                  Inl f \<Rightarrow> Inl f
                | Inr (timing_data', tick') \<Rightarrow>
                    suite_loop search fl clock firstFunction lastFunction suite dimension
                      (cnt1 + 1) timing_data' tick'))"

text \<open>
  \<open>example_experiment\<close> for a search strategy: the timing is initialised, the suite is gone
  through and the timing is finalised. The result is what the timing prints.
\<close>

definition example_experiment ::
  "strategy \<Rightarrow> (real \<Rightarrow> double) \<Rightarrow> (nat \<Rightarrow> int) \<Rightarrow> nat \<Rightarrow> int \<Rightarrow> int \<Rightarrow> problem list
    \<Rightarrow> failure + summary list \<times> int \<times> int \<times> int" where
  "example_experiment search fl clock dimension_idx firstFunction lastFunction suite =
     (let (timing_data, tick) = timing_data_initialize clock dimension_idx 0
      in case suite_loop search fl clock firstFunction lastFunction suite 0 1 timing_data tick of
           Inl f \<Rightarrow> Inl f
         | Inr (timing_data', tick') \<Rightarrow> timing_data_finalize fl clock timing_data' tick')"

section \<open>Notions used to state the properties\<close>

subsection \<open>Grid search\<close>

text \<open>
  The position of a node vector in the enumeration of the grid: the nodes are the digits,
  least significant first, of a number in base \<open>max_nodes + 1\<close>.
\<close>

fun node_index :: "int \<Rightarrow> int list \<Rightarrow> nat" where
  "node_index m [] = 0"
| "node_index m (k # ks) = nat k + (nat m + 1) * node_index m ks"

text \<open>A node vector of the grid: \<open>dimension\<close> indices between 0 and \<open>max_nodes\<close>.\<close>

definition valid_nodes :: "int \<Rightarrow> nat \<Rightarrow> int list \<Rightarrow> bool" where
  "valid_nodes m d ns \<longleftrightarrow> length ns = d \<and> (\<forall>k\<in>set ns. 0 \<le> k \<and> k \<le> m)"

text \<open>The spec's \<open>max_nodes = max(1, floor(budget^(1/dimension)) - 1)\<close>, from the floor.\<close>

definition grid_max_nodes :: "int \<Rightarrow> int" where
  "grid_max_nodes floor_pow = max 1 (floor_pow - 1)"

text \<open>
  A point of the grid: each coordinate is \<open>lower[j] + step[j] * k\<close> for an index \<open>k\<close> between 0
  and \<open>max_nodes\<close>, with \<open>step[j] = (upper[j] - lower[j]) / max_nodes\<close>, computed as the source
  computes it.
\<close>

definition on_grid :: "(real \<Rightarrow> double) \<Rightarrow> int \<Rightarrow> nat \<Rightarrow> point \<Rightarrow> point \<Rightarrow> point \<Rightarrow> bool" where
  "on_grid fl max_nodes dimension lower_bounds upper_bounds x \<longleftrightarrow>
     length x = dimension \<and>
     (\<forall>j<dimension. \<exists>k. 0 \<le> k \<and> k \<le> max_nodes \<and>
        x ! j = dadd fl (lower_bounds ! j)
                  (dmul fl (ddiv fl (dsub fl (upper_bounds ! j) (lower_bounds ! j))
                                    (to_double fl max_nodes))
                           (to_double fl k)))"

text \<open>Every coordinate lies in the closed interval of its bounds.\<close>

definition within_bounds :: "nat \<Rightarrow> point \<Rightarrow> point \<Rightarrow> point \<Rightarrow> bool" where
  "within_bounds dimension lower_bounds upper_bounds x \<longleftrightarrow>
     length x = dimension \<and>
     (\<forall>j<dimension. lower_bounds ! j \<le> x ! j \<and> x ! j \<le> upper_bounds ! j)"

subsection \<open>Random search\<close>

text \<open>
  A point as \<open>my_random_search\<close> samples it: each coordinate is
  \<open>lower[j] + u * (upper[j] - lower[j])\<close> for a number \<open>u\<close> drawn from the generator,
  computed as the source computes it.
\<close>

definition sampled ::
  "(real \<Rightarrow> double) \<Rightarrow> ('g \<Rightarrow> double \<times> 'g) \<Rightarrow> nat \<Rightarrow> point \<Rightarrow> point \<Rightarrow> point \<Rightarrow> bool" where
  "sampled fl uniform dimension lower_bounds upper_bounds x \<longleftrightarrow>
     length x = dimension \<and>
     (\<forall>j<dimension. \<exists>g.
        x ! j = dadd fl (lower_bounds ! j)
                  (dmul fl (fst (uniform g)) (dsub fl (upper_bounds ! j) (lower_bounds ! j))))"

text \<open>Every coordinate lies in the half-open interval of its bounds.\<close>

definition within_half_open :: "nat \<Rightarrow> point \<Rightarrow> point \<Rightarrow> point \<Rightarrow> bool" where
  "within_half_open dimension lower_bounds upper_bounds x \<longleftrightarrow>
     length x = dimension \<and>
     (\<forall>j<dimension. lower_bounds ! j \<le> x ! j \<and> x ! j < upper_bounds ! j)"

text \<open>
  The calls of \<open>budget\<close> rounds at the points \<open>xs\<close>: an objective evaluation and, when the
  problem has constraints, a constraint evaluation of the same point.
\<close>

definition rounds :: "nat \<Rightarrow> point list \<Rightarrow> (call \<times> point) list" where
  "rounds number_of_constraints xs =
     concat (map (\<lambda>x. (Objective, x) #
                        (if 0 < number_of_constraints then [(Constraint, x)] else [])) xs)"

text \<open>The evaluator called and the point, for each logged evaluation.\<close>

definition calls :: "evaluation list \<Rightarrow> (call \<times> point) list" where
  "calls evs = map (\<lambda>ev. (kind ev, arg ev)) evs"

subsection \<open>Directed search\<close>

text \<open>The problem after the warm-up pair of \<open>my_search\<close>.\<close>

definition warmed_up :: "problem \<Rightarrow> problem" where
  "warmed_up p =
     snd (evaluate_function (get_initial_solution p)
            (snd (evaluate_constraint (get_initial_solution p) p)))"

text \<open>The two evaluations of the warm-up pair, as they are logged.\<close>

definition warm_up_pair :: "problem \<Rightarrow> evaluation list" where
  "warm_up_pair p =
     [Evaluation Constraint (get_initial_solution p)
        (get_evaluations p + get_evaluations_constraints p),
      Evaluation Objective (get_initial_solution p)
        (get_evaluations p + get_evaluations_constraints p + 1)]"

text \<open>The solver \<open>my_search\<close> constructs, and what its run surfaces to the \<open>try\<close> block.\<close>

definition solver_of ::
  "(point \<Rightarrow> point \<Rightarrow> point \<Rightarrow> solver) \<Rightarrow> nat \<Rightarrow> point \<Rightarrow> point \<Rightarrow> problem \<Rightarrow> solver" where
  "solver_of RayEs dimension lower_bounds upper_bounds p =
     RayEs (map (\<lambda>i. lower_bounds ! i) [0..<dimension])
           (map (\<lambda>i. upper_bounds ! i) [0..<dimension])
           (map (\<lambda>i. get_initial_solution p ! i) [0..<dimension])"

definition solver_outcome ::
  "(point \<Rightarrow> point \<Rightarrow> point \<Rightarrow> solver) \<Rightarrow> nat \<Rightarrow> nat \<Rightarrow> point \<Rightarrow> point \<Rightarrow> size_t \<Rightarrow> problem
    \<Rightarrow> exception + string" where
  "solver_outcome RayEs dimension number_of_constraints lower_bounds upper_bounds max_budget p =
     fst (solver_run (solver_of RayEs dimension lower_bounds upper_bounds p) max_budget
            dimension number_of_constraints (warmed_up p))"

text \<open>A solver whose next step is a call of one of the two callables.\<close>

definition requests_evaluation :: "solver \<Rightarrow> bool" where
  "requests_evaluation s =
     (case s of Eval_func x k \<Rightarrow> True | Eval_cons x k \<Rightarrow> True | Terminated i \<Rightarrow> False
      | Throws w \<Rightarrow> False | Throws_other \<Rightarrow> False)"

subsection \<open>Restart loop\<close>

text \<open>
  The condition under which the loop stops before the strategy is called: the final
  target was hit and the problem has no constraints, or no evaluations remain.
\<close>

definition stop_before :: "size_t \<Rightarrow> problem \<Rightarrow> bool" where
  "stop_before multiplier p \<longleftrightarrow>
     (final_target_hit p \<and> get_number_of_constraints p = 0) \<or>
     evaluations_remaining multiplier p \<le>s 0"

text \<open>The budgets of the strategy calls among the events, in order.\<close>

fun budgets :: "driver_event list \<Rightarrow> size_t list" where
  "budgets [] = []"
| "budgets (Invoked b # es) = b # budgets es"
| "budgets (Warned a b # es) = budgets es"

text \<open>The call of the strategy as the loop makes it for a problem.\<close>

definition call_of :: "strategy \<Rightarrow> size_t \<Rightarrow> problem \<Rightarrow> failure + problem" where
  "call_of search multiplier p =
     search (unat (get_dimension p)) (get_number_of_objectives p) (get_number_of_constraints p)
       (get_smallest_values_of_interest p) (get_largest_values_of_interest p)
       (evaluations_remaining multiplier p) p"

text \<open>
  Two strategies for concrete runs: one that evaluates nothing, and one after which the
  problem's counters read less than before.
\<close>

definition idle :: strategy where
  "idle dimension number_of_objectives number_of_constraints lower_bounds upper_bounds
     max_budget p = Inr p"

definition forgetful :: strategy where
  "forgetful dimension number_of_objectives number_of_constraints lower_bounds upper_bounds
     max_budget p = Inr (p\<lparr>get_evaluations := 0, get_evaluations_constraints := 0\<rparr>)"

text \<open>
  A problem that the loop over the suite does not skip, for the values \<open>prevDimension\<close> and
  \<open>cnt\<close> has when the problem is taken from the suite.
\<close>

definition accepted :: "int \<Rightarrow> int \<Rightarrow> size_t \<Rightarrow> int \<Rightarrow> problem \<Rightarrow> bool" where
  "accepted firstFunction lastFunction prevDimension cnt p \<longleftrightarrow>
     (let cnt1 = (if get_dimension p \<noteq> prevDimension then 1 else cnt)
      in (firstFunction - 1) * nInstances < cnt1 \<and> cnt1 < lastFunction * nInstances + 1)"

subsection \<open>Timing\<close>

text \<open>
  The value of a summary line: the seconds between two clock readings, divided by the
  number of evaluations, as \<open>timing_data_time_problem\<close> computes it.
\<close>

definition seconds_per_evaluation :: "(real \<Rightarrow> double) \<Rightarrow> int \<Rightarrow> int \<Rightarrow> size_t \<Rightarrow> double" where
  "seconds_per_evaluation fl time1 time0 n =
     ddiv fl (difftime fl time1 time0) (to_double fl (uint n))"

text \<open>The hours, minutes and seconds \<open>timing_data_finalize\<close> prints for two clock readings.\<close>

definition total_elapsed :: "(real \<Rightarrow> double) \<Rightarrow> int \<Rightarrow> int \<Rightarrow> int \<times> int \<times> int" where
  "total_elapsed fl time1 time0 =
     (let t = to_int (difftime fl time1 time0)
      in (t sdiv 3600, (t smod 3600) sdiv 60,
          t - (t sdiv 3600) * 3600 - ((t smod 3600) sdiv 60) * 60))"

text \<open>The number of maximal runs of equal dimension in a stream of problems.\<close>

definition dimension_runs :: "problem list \<Rightarrow> nat" where
  "dimension_runs problems = length (remdups_adj (map get_dimension problems))"

text \<open>A processed problem of dimension \<open>d\<close> with \<open>e\<close> objective evaluations, for concrete runs.\<close>

definition timed :: "nat \<Rightarrow> size_t \<Rightarrow> problem" where
  "timed d e = (fresh_problem 1 1 (replicate d 0) (replicate d 1))\<lparr>get_evaluations := e\<rparr>"

section \<open>Grid search: number of evaluations and evaluated points\<close>

lemma node_index_append:
  "node_index m (xs @ ys) = node_index m xs + (nat m + 1) ^ length xs * node_index m ys"
  by (induction xs) (simp_all add: algebra_simps)

lemma node_index_replicate_max:
  "0 \<le> m \<Longrightarrow> node_index m (replicate j m) + 1 = (nat m + 1) ^ j"
proof (induction j)
  case 0
  then show ?case by simp
next
  case (Suc j)
  then have "(nat m + 1) ^ j = node_index m (replicate j m) + 1" by simp
  then show ?case by (simp add: algebra_simps)
qed

lemma node_index_replicate_zero: "node_index m (replicate j 0) = 0"
  by (induction j) simp_all

lemma node_index_less:
  "valid_nodes m d ns \<Longrightarrow> node_index m ns < (nat m + 1) ^ d"
proof (induction ns arbitrary: d)
  case Nil
  then show ?case by (simp add: valid_nodes_def)
next
  case (Cons k ks)
  then obtain d' where d: "d = Suc d'" and v: "valid_nodes m d' ks" and k: "0 \<le> k" "k \<le> m"
    by (cases d) (auto simp: valid_nodes_def)
  from Cons.IH [OF v] have "node_index m ks + 1 \<le> (nat m + 1) ^ d'" by simp
  then have "(nat m + 1) * (node_index m ks + 1) \<le> (nat m + 1) * (nat m + 1) ^ d'"
    by (rule mult_le_mono2)
  moreover have "nat k \<le> nat m" using k by simp
  ultimately show ?case by (simp add: d algebra_simps)
qed

lemma prefix_max_decompose:
  assumes "j < length ns" "\<forall>i<j. ns ! i = m"
  shows "ns = replicate j m @ ns ! j # drop (Suc j) ns"
proof -
  have "take j ns = replicate j m"
    using assms by (intro nth_equalityI) auto
  then show ?thesis
    using assms(1) by (metis id_take_nth_drop)
qed

lemma next_level_spec:
  assumes "valid_nodes m d ns" "j0 \<le> d" "\<forall>i<j0. ns ! i = m" "0 \<le> m"
  shows "case next_level m d ns j0 of (ns', j) \<Rightarrow>
           (j < d \<and> valid_nodes m d ns' \<and> node_index m ns' = node_index m ns + 1)
           \<or> (j = d \<and> ns' = ns \<and> ns = replicate d m)"
  using assms
proof (induction m d ns j0 rule: next_level.induct)
  case (1 m d ns j)
  show ?case
  proof (cases "j < d")
    case False
    with "1.prems" have jd: "j = d" by simp
    have "ns = replicate d m"
      using "1.prems" jd by (intro nth_equalityI) (auto simp: valid_nodes_def)
    moreover have "next_level m d ns j = (ns, j)"
      using False by (simp add: next_level.simps [of m d ns j])
    ultimately show ?thesis using jd by simp
  next
    case True
    have len: "length ns = d" using "1.prems" by (simp add: valid_nodes_def)
    show ?thesis
    proof (cases "ns ! j < m")
      case below: True
      let ?k = "ns ! j"
      let ?rest = "drop (Suc j) ns"
      have dec: "ns = replicate j m @ ?k # ?rest"
        using prefix_max_decompose [of j ns m] True len "1.prems"(3) by simp
      have k0: "0 \<le> ?k" using "1.prems"(1) True len by (simp add: valid_nodes_def)
      have upd: "drop j (ns[j := ?k + 1]) = (?k + 1) # ?rest"
        using True len by (simp add: upd_conv_take_nth_drop)
      let ?ns' = "replicate j 0 @ (?k + 1) # ?rest"
      have res: "next_level m d ns j = (?ns', j)"
        using True below upd by (simp add: next_level.simps [of m d ns j])
      have restv: "\<forall>k\<in>set ?rest. 0 \<le> k \<and> k \<le> m"
        using "1.prems"(1) by (auto simp: valid_nodes_def dest: in_set_dropD)
      have v': "valid_nodes m d ?ns'"
        using restv below k0 True len "1.prems"(4) by (auto simp: valid_nodes_def)
      have i0: "node_index m ns = node_index m (replicate j m) + (nat m + 1) ^ j * (nat ?k + (nat m + 1) * node_index m ?rest)"
        by (subst dec) (simp add: node_index_append)
      have i1: "node_index m ?ns' = (nat m + 1) ^ j * (nat (?k + 1) + (nat m + 1) * node_index m ?rest)"
        by (simp add: node_index_append node_index_replicate_zero)
      have "nat (?k + 1) = nat ?k + 1" using k0 by simp
      then have "node_index m ?ns' = node_index m ns + 1"
        using node_index_replicate_max [OF "1.prems"(4), of j] i0 i1 by (simp add: algebra_simps)
      with res v' True show ?thesis by simp
    next
      case False
      have "ns ! j \<le> m" using "1.prems"(1) True len by (simp add: valid_nodes_def)
      with False have eq: "ns ! j = m" by simp
      then have all: "\<forall>i<Suc j. ns ! i = m" using "1.prems"(3) by (auto simp: less_Suc_eq)
      have "Suc j \<le> d" using True by simp
      from "1.IH" [OF True False "1.prems"(1) this all "1.prems"(4)]
      show ?thesis using True False by (simp add: next_level.simps [of m d ns j])
    qed
  qed
qed

lemma history_evaluate_function:
  "history (snd (evaluate_function x p)) =
     history p @ [Evaluation Objective x (get_evaluations p + get_evaluations_constraints p)]"
  by (simp add: evaluate_function_def coco_evaluate_function_def)

lemma node_index_bump:
  assumes "valid_nodes m d ns" "1 \<le> d" "ns ! 0 < m"
  shows "valid_nodes m d (ns[0 := ns ! 0 + 1]) \<and> node_index m (ns[0 := ns ! 0 + 1]) = node_index m ns + 1"
proof -
  from assms obtain k ks where ns: "ns = k # ks" by (cases ns) (auto simp: valid_nodes_def)
  with assms have "0 \<le> k" "k < m" by (auto simp: valid_nodes_def)
  then have "nat (k + 1) = nat k + 1" by simp
  with assms ns show ?thesis by (auto simp: valid_nodes_def)
qed

lemma grid_loop_spec:
  assumes "valid_nodes m d ns" "1 \<le> d" "1 \<le> m" "node_index m ns = e"
  shows "\<exists>p' new. grid_loop fl d m B lower step e ns p = Inr p' \<and>
           history p' = history p @ new \<and>
           length new = min B ((nat m + 1) ^ d) - e \<and>
           (\<forall>ev\<in>set new. kind ev = Objective \<and>
              (\<exists>ns'. valid_nodes m d ns' \<and> arg ev = grid_point fl d lower step ns'))"
  using assms
proof (induction "B - e" arbitrary: e ns p rule: less_induct)
  case less
  let ?N = "(nat m + 1) ^ d"
  show ?case
  proof (cases "e < B")
    case False
    then show ?thesis by (simp add: grid_loop.simps [of fl d m B lower step e ns p])
  next
    case True
    let ?x = "grid_point fl d lower step ns"
    let ?p1 = "snd (evaluate_function ?x p)"
    let ?ev = "Evaluation Objective ?x (get_evaluations p + get_evaluations_constraints p)"
    have h1: "history ?p1 = history p @ [?ev]" by (rule history_evaluate_function)
    have evok: "kind ?ev = Objective \<and>
        (\<exists>ns'. valid_nodes m d ns' \<and> arg ?ev = grid_point fl d lower step ns')"
      using less.prems(1) by auto
    have eN: "e < ?N" using node_index_less [OF less.prems(1)] less.prems(4) by simp
    have d0: "d \<noteq> 0" using less.prems(2) by simp
    have step: "\<exists>p' new. grid_loop fl d m B lower step (e + 1) ns' ?p1 = Inr p' \<and>
           history p' = history ?p1 @ new \<and>
           length new = min B ?N - (e + 1) \<and>
           (\<forall>ev\<in>set new. kind ev = Objective \<and>
              (\<exists>ns'. valid_nodes m d ns' \<and> arg ev = grid_point fl d lower step ns'))"
      if v: "valid_nodes m d ns'" and i: "node_index m ns' = e + 1" for ns'
      using less.hyps [of "e + 1" ns' ?p1] True v i less.prems(2,3) by simp
    have finish: ?thesis
      if v: "valid_nodes m d ns'" and i: "node_index m ns' = e + 1"
        and eq: "grid_loop fl d m B lower step e ns p = grid_loop fl d m B lower step (e + 1) ns' ?p1"
      for ns'
    proof -
      from step [OF v i] obtain p' new where
        r: "grid_loop fl d m B lower step (e + 1) ns' ?p1 = Inr p'"
        and h: "history p' = history ?p1 @ new"
        and l: "length new = min B ?N - (e + 1)"
        and a: "\<forall>ev\<in>set new. kind ev = Objective \<and>
              (\<exists>ns'. valid_nodes m d ns' \<and> arg ev = grid_point fl d lower step ns')"
        by blast
      have "e + 1 < ?N" using node_index_less [OF v] i by simp
      with True have em: "e < min B ?N" by simp
      have "Suc (a - Suc e) = a - e" if "e < a" for a :: nat
        using that by arith
      from this [OF em] have l': "length (?ev # new) = min B ?N - e" using l by simp
      have h': "history p' = history p @ (?ev # new)" using h h1 by simp
      have a': "\<forall>ev\<in>set (?ev # new). kind ev = Objective \<and>
              (\<exists>ns'. valid_nodes m d ns' \<and> arg ev = grid_point fl d lower step ns')"
        using a evok by simp
      have r': "grid_loop fl d m B lower step e ns p = Inr p'" using r eq by simp
      show ?thesis
        by (intro exI [of _ p'] exI [of _ "?ev # new"] conjI r' h' l' a')
    qed
    show ?thesis
    proof (cases "ns ! 0 < m")
      case below: True
      have eq: "grid_loop fl d m B lower step e ns p =
                grid_loop fl d m B lower step (e + 1) (ns[0 := ns ! 0 + 1]) ?p1"
        using True below d0 by (simp add: grid_loop.simps [of fl d m B lower step e ns p] Let_def)
      from node_index_bump [OF less.prems(1,2) below] less.prems(4)
      show ?thesis using finish [OF _ _ eq] by simp
    next
      case False
      obtain ns' j where nl: "next_level m d ns 1 = (ns', j)"
        by (cases "next_level m d ns 1") blast
      have len: "length ns = d" using less.prems(1) by (simp add: valid_nodes_def)
      have "ns ! 0 \<le> m" using less.prems(1,2) len by (simp add: valid_nodes_def)
      with False have "\<forall>i<1. ns ! i = m" by simp
      from next_level_spec [OF less.prems(1) less.prems(2) this] less.prems(3) nl
      consider (more) "j < d" "valid_nodes m d ns'" "node_index m ns' = node_index m ns + 1"
        | (last) "j = d" "ns' = ns" "ns = replicate d m"
        by auto
      then show ?thesis
      proof cases
        case more
        have eq: "grid_loop fl d m B lower step e ns p =
                  grid_loop fl d m B lower step (e + 1) ns' ?p1"
          using True False d0 less.prems(3) nl more(1)
          by (simp add: grid_loop.simps [of fl d m B lower step e ns p] Let_def)
        show ?thesis using finish [OF more(2) _ eq] more(3) less.prems(4) by simp
      next
        case last
        have "replicate d m ! (d - 1) = m" using d0 by simp
        then have "ns' ! (d - 1) = m" using last by simp
        then have r: "grid_loop fl d m B lower step e ns p = Inr ?p1"
          using True False d0 less.prems(3) nl last(1)
          by (simp add: grid_loop.simps [of fl d m B lower step e ns p] Let_def)
        have "e + 1 = ?N"
          using node_index_replicate_max [of m d] last(3) less.prems(3,4) by simp
        with True have l': "length [?ev] = min B ?N - e" by simp
        have a': "\<forall>ev\<in>set [?ev]. kind ev = Objective \<and>
              (\<exists>ns'. valid_nodes m d ns' \<and> arg ev = grid_point fl d lower step ns')"
          using evok by simp
        show ?thesis
          by (intro exI [of _ ?p1] exI [of _ "[?ev]"] conjI r h1 l' a')
      qed
    qed
  qed
qed

lemma grid_point_on_grid:
  assumes "valid_nodes m d ns"
  shows "on_grid fl m d lower upper
           (grid_point fl d lower
              (map (\<lambda>j. ddiv fl (dsub fl (upper ! j) (lower ! j)) (to_double fl m)) [0..<d]) ns)"
  unfolding on_grid_def grid_point_def
proof (intro conjI allI impI)
  fix j assume j: "j < d"
  from assms j have "0 \<le> ns ! j \<and> ns ! j \<le> m" by (simp add: valid_nodes_def)
  with j show "\<exists>k\<ge>0. k \<le> m \<and>
      map (\<lambda>j. dadd fl (lower ! j)
                 (dmul fl (map (\<lambda>j. ddiv fl (dsub fl (upper ! j) (lower ! j)) (to_double fl m)) [0..<d] ! j)
                    (to_double fl (ns ! j)))) [0..<d] ! j =
      dadd fl (lower ! j)
        (dmul fl (ddiv fl (dsub fl (upper ! j) (lower ! j)) (to_double fl m)) (to_double fl k))"
    by (intro exI [of _ "ns ! j"]) simp
qed simp

lemma exact_on_grid_within_bounds:
  assumes "on_grid exact m d lower upper x" "1 \<le> m" "\<forall>j<d. lower ! j \<le> upper ! j"
  shows "within_bounds d lower upper x"
  unfolding within_bounds_def
proof (intro conjI allI impI)
  show "length x = d" using assms(1) by (simp add: on_grid_def)
next
  fix j assume j: "j < d"
  from assms(1) j obtain k where k: "0 \<le> k" "k \<le> m"
    and x: "x ! j = lower ! j + (upper ! j - lower ! j) / real_of_int m * real_of_int k"
    by (auto simp: on_grid_def dadd_def dmul_def ddiv_def dsub_def to_double_def exact_def)
  let ?w = "upper ! j - lower ! j"
  have w: "0 \<le> ?w" using assms(3) j by simp
  have m: "0 < real_of_int m" using assms(2) by simp
  have "0 \<le> ?w / real_of_int m * real_of_int k" using w m k by simp
  then show "lower ! j \<le> x ! j" using x by simp
  have "real_of_int k / real_of_int m \<le> 1" using k m by simp
  then have "?w * (real_of_int k / real_of_int m) \<le> ?w * 1"
    using w by (rule mult_left_mono)
  then show "x ! j \<le> upper ! j" using x by (simp add: field_simps)
qed

lemma my_grid_search_spec:
  assumes "1 \<le> dimension" "dimension \<le> length lower" "dimension \<le> length upper"
  shows "\<exists>p' new. my_grid_search fl floor_pow dimension lower upper max_budget p = Inr p' \<and>
           history p' = history p @ new \<and>
           length new = min max_budget ((nat (grid_max_nodes floor_pow) + 1) ^ dimension) \<and>
           (\<forall>ev\<in>set new. kind ev = Objective \<and>
              on_grid fl (grid_max_nodes floor_pow) dimension lower upper (arg ev))"
proof -
  let ?m = "grid_max_nodes floor_pow"
  let ?step = "map (\<lambda>j. ddiv fl (dsub fl (upper ! j) (lower ! j)) (to_double fl ?m)) [0..<dimension]"
  have m: "1 \<le> ?m" by (simp add: grid_max_nodes_def)
  have unfold: "my_grid_search fl floor_pow dimension lower upper max_budget p =
      grid_loop fl dimension ?m max_budget lower ?step 0 (replicate dimension 0) p"
    using assms by (simp add: my_grid_search_def grid_max_nodes_def max_def Let_def not_less)
  have v: "valid_nodes ?m dimension (replicate dimension 0)"
    using m by (simp add: valid_nodes_def)
  have i: "node_index ?m (replicate dimension 0) = 0" by (rule node_index_replicate_zero)
  from grid_loop_spec [OF v assms(1) m i, of fl max_budget lower ?step p]
  obtain p' new where
    r: "grid_loop fl dimension ?m max_budget lower ?step 0 (replicate dimension 0) p = Inr p'"
    and h: "history p' = history p @ new"
    and l: "length new = min max_budget ((nat ?m + 1) ^ dimension) - 0"
    and a: "\<forall>ev\<in>set new. kind ev = Objective \<and>
              (\<exists>ns'. valid_nodes ?m dimension ns' \<and> arg ev = grid_point fl dimension lower ?step ns')"
    by blast
  have a': "\<forall>ev\<in>set new. kind ev = Objective \<and> on_grid fl ?m dimension lower upper (arg ev)"
    using a grid_point_on_grid by metis
  have l': "length new = min max_budget ((nat ?m + 1) ^ dimension)" using l by simp
  have r': "my_grid_search fl floor_pow dimension lower upper max_budget p = Inr p'"
    using r unfold by simp
  show ?thesis
    by (intro exI [of _ p'] exI [of _ new] conjI r' h l' a')
qed


text \<open>
  Claim C1, as the code has it. For every dimension of at least 1, every budget and every
  pair of bound vectors with \<open>dimension\<close> entries, \<open>my_grid_search\<close> returns after exactly
  \<open>min(budget, (max_nodes + 1)^dimension)\<close> evaluations, all of the objective, where
  \<open>max_nodes = max(1, r - 1)\<close> and \<open>r\<close> is the value that \<open>floor(pow(budget, 1 / dimension))\<close>
  has in the platform's double arithmetic. Every evaluated point is a point of the grid:
  its coordinate \<open>j\<close> is \<open>lower[j] + step[j] * k\<close> for an index \<open>0 \<le> k \<le> max_nodes\<close>. In exact
  arithmetic, and with \<open>lower[j] \<le> upper[j]\<close>, every coordinate lies in
  \<open>[lower[j], upper[j]]\<close>.
\<close>

theorem grid_search_evaluations:
  assumes "1 \<le> dimension" "dimension \<le> length lower" "dimension \<le> length upper"
  shows "\<exists>p' new.
           my_grid_search fl floor_pow dimension lower upper max_budget p = Inr p' \<and>
           history p' = history p @ new \<and>
           length new = min max_budget ((nat (grid_max_nodes floor_pow) + 1) ^ dimension) \<and>
           (\<forall>ev\<in>set new. kind ev = Objective \<and>
              on_grid fl (grid_max_nodes floor_pow) dimension lower upper (arg ev)) \<and>
           (fl = exact \<and> (\<forall>j<dimension. lower ! j \<le> upper ! j) \<longrightarrow>
              (\<forall>ev\<in>set new. within_bounds dimension lower upper (arg ev)))"
proof -
  from my_grid_search_spec [OF assms, of fl floor_pow max_budget p]
  obtain p' new where
    r: "my_grid_search fl floor_pow dimension lower upper max_budget p = Inr p'"
    and h: "history p' = history p @ new"
    and l: "length new = min max_budget ((nat (grid_max_nodes floor_pow) + 1) ^ dimension)"
    and a: "\<forall>ev\<in>set new. kind ev = Objective \<and>
              on_grid fl (grid_max_nodes floor_pow) dimension lower upper (arg ev)"
    by blast
  have m: "1 \<le> grid_max_nodes floor_pow" by (simp add: grid_max_nodes_def)
  have b: "fl = exact \<and> (\<forall>j<dimension. lower ! j \<le> upper ! j) \<longrightarrow>
              (\<forall>ev\<in>set new. within_bounds dimension lower upper (arg ev))"
    using a exact_on_grid_within_bounds [OF _ m] by blast
  show ?thesis
    by (intro exI [of _ p'] exI [of _ new] conjI r h l a b)
qed

theorem grid_search_evaluations_witness:
  "(1::nat) \<le> 2 \<and> 2 \<le> length [-5, -5::real] \<and> 2 \<le> length [5, 5::real] \<and>
   (\<exists>p' new.
      my_grid_search exact 5 2 [-5, -5] [5, 5] 25 (fresh_problem 1 0 [-5, -5] [5, 5]) = Inr p' \<and>
      history p' = new \<and> length new = 25 \<and>
      list_all (\<lambda>ev. kind ev = Objective \<and> within_bounds 2 [-5, -5] [5, 5] (arg ev)) new)"
proof -
  from grid_search_evaluations [of 2 "[-5, -5]" "[5, 5]" exact 5 25
      "fresh_problem 1 0 [-5, -5] [5, 5]"]
  obtain p' new where
    r: "my_grid_search exact 5 2 [-5, -5] [5, 5] 25 (fresh_problem 1 0 [-5, -5] [5, 5]) = Inr p'"
    and h: "history p' = history (fresh_problem 1 0 [-5, -5] [5, 5]) @ new"
    and l: "length new = min 25 ((nat (grid_max_nodes 5) + 1) ^ 2)"
    and a: "\<forall>ev\<in>set new. kind ev = Objective \<and> on_grid exact (grid_max_nodes 5) 2 [-5, -5] [5, 5] (arg ev)"
    and b: "exact = exact \<and> (\<forall>j<2. [-5, -5::real] ! j \<le> [5, 5] ! j) \<longrightarrow>
              (\<forall>ev\<in>set new. within_bounds 2 [-5, -5] [5, 5] (arg ev))"
    by auto
  have "\<forall>j<2. [-5, -5::real] ! j \<le> [5, 5] ! j" by (simp add: less_Suc_eq numeral_2_eq_2)
  with a b have "list_all (\<lambda>ev. kind ev = Objective \<and> within_bounds 2 [-5, -5] [5, 5] (arg ev)) new"
    by (simp add: list_all_iff)
  moreover have "history p' = new" using h by (simp add: fresh_problem_def)
  moreover have "length new = 25" using l by (simp add: grid_max_nodes_def)
  ultimately show ?thesis using r by simp
qed

text \<open>
  The claim as stated fails in the double arithmetic of the compiled program: with one
  dimension, bounds 0 and 29 and a budget of 8 (so \<open>pow(8, 1) = 8\<close> and \<open>max_nodes = 7\<close>), the
  step \<open>29 / 7\<close> is rounded up, and the eighth point \<open>0 + step * 7\<close> is
  \<open>29.000000000000004\<close>, above the upper bound.
\<close>

theorem grid_search_bounds_counterexample:
  "\<exists>p'. my_grid_search binary64 8 1 [0] [29] 8 (fresh_problem 1 0 [0] [29]) = Inr p' \<and>
     length (history p') = 8 \<and>
     arg (last (history p')) = [8162774324609025 / 281474976710656] \<and>
     \<not> within_bounds 1 [0] [29] (arg (last (history p')))"
  by (simp add: my_grid_search_def grid_loop.simps next_level.simps grid_point_def
        evaluate_function_def coco_evaluate_function_def fresh_problem_def
        dadd_def dmul_def ddiv_def dsub_def to_double_def binary64_def expo_def
        round_half_even_def compute_floorlog within_bounds_def Let_def power_int_minus)

section \<open>Random search: number of evaluations and sampled points\<close>

lemma random_point_spec:
  assumes "j \<le> d" "length x = d"
  shows "\<exists>x' g'. random_point fl uniform d lower upper j x g = (x', g') \<and>
           length x' = d \<and>
           (\<forall>i<j. x' ! i = x ! i) \<and>
           (\<forall>i. j \<le> i \<and> i < d \<longrightarrow> (\<exists>g0.
              x' ! i = dadd fl (lower ! i) (dmul fl (fst (uniform g0)) (dsub fl (upper ! i) (lower ! i)))))"
  using assms
proof (induction "d - j" arbitrary: j x g)
  case 0
  then have jd: "\<not> j < d" by simp
  then have "random_point fl uniform d lower upper j x g = (x, g)"
    by (simp add: random_point.simps [of fl uniform d lower upper j x g])
  then show ?case using 0 jd by simp
next
  case (Suc n)
  then have jd: "j < d" by simp
  obtain u g1 where u: "uniform g = (u, g1)" by (cases "uniform g") blast
  let ?v = "dadd fl (lower ! j) (dmul fl u (dsub fl (upper ! j) (lower ! j)))"
  let ?x1 = "x[j := ?v]"
  have eq: "random_point fl uniform d lower upper j x g =
            random_point fl uniform d lower upper (Suc j) ?x1 g1"
    using jd u by (simp add: random_point.simps [of fl uniform d lower upper j x g])
  have "n = d - Suc j" using Suc.hyps(2) by simp
  from Suc.hyps(1) [OF this, of ?x1 g1] jd Suc.prems
  obtain x' g' where
    r: "random_point fl uniform d lower upper (Suc j) ?x1 g1 = (x', g')"
    and len: "length x' = d"
    and keep: "\<forall>i<Suc j. x' ! i = ?x1 ! i"
    and new: "\<forall>i. Suc j \<le> i \<and> i < d \<longrightarrow> (\<exists>g0.
              x' ! i = dadd fl (lower ! i) (dmul fl (fst (uniform g0)) (dsub fl (upper ! i) (lower ! i))))"
    by auto
  have k1: "\<forall>i<j. x' ! i = x ! i" using keep by simp
  have "x' ! j = ?v" using keep jd Suc.prems by simp
  then have at_j: "\<exists>g0. x' ! j = dadd fl (lower ! j) (dmul fl (fst (uniform g0)) (dsub fl (upper ! j) (lower ! j)))"
    using u by (metis fst_conv)
  have n1: "\<forall>i. j \<le> i \<and> i < d \<longrightarrow> (\<exists>g0.
              x' ! i = dadd fl (lower ! i) (dmul fl (fst (uniform g0)) (dsub fl (upper ! i) (lower ! i))))"
  proof (intro allI impI)
    fix i assume "j \<le> i \<and> i < d"
    then consider "i = j" | "Suc j \<le> i \<and> i < d" by force
    then show "\<exists>g0. x' ! i = dadd fl (lower ! i) (dmul fl (fst (uniform g0)) (dsub fl (upper ! i) (lower ! i)))"
      using at_j new by cases auto
  qed
  have r': "random_point fl uniform d lower upper j x g = (x', g')" using eq r by simp
  show ?case by (intro exI [of _ x'] exI [of _ g'] conjI r' len k1 n1)
qed

lemma random_point_sampled:
  assumes "length x = d"
  shows "\<exists>x' g'. random_point fl uniform d lower upper 0 x g = (x', g') \<and>
           sampled fl uniform d lower upper x'"
  using random_point_spec [of 0 d x fl uniform lower upper g] assms
  unfolding sampled_def by fastforce

lemma history_evaluate_constraint:
  "history (snd (evaluate_constraint x p)) =
     history p @ [Evaluation Constraint x (get_evaluations p + get_evaluations_constraints p)]"
  by (simp add: evaluate_constraint_def coco_evaluate_constraint_def)

lemma rounds_Cons:
  "rounds c (x # xs) = (Objective, x) # (if 0 < c then [(Constraint, x)] else []) @ rounds c xs"
  by (simp add: rounds_def)

lemma random_loop_spec:
  assumes "length x = d"
  shows "\<exists>p' g' new xs. random_loop fl uniform d c lower upper B i x p g = (p', g') \<and>
           history p' = history p @ new \<and>
           length xs = B - i \<and>
           calls new = rounds c xs \<and>
           (\<forall>y\<in>set xs. sampled fl uniform d lower upper y)"
  using assms
proof (induction "B - i" arbitrary: i x p g)
  case 0
  then have "\<not> i < B" by simp
  then have "random_loop fl uniform d c lower upper B i x p g = (p, g)"
    by (simp add: random_loop.simps [of fl uniform d c lower upper B i x p g])
  then show ?case
    using 0 by (intro exI [of _ p] exI [of _ g] exI [of _ "[]"]) (simp add: calls_def rounds_def)
next
  case (Suc n)
  then have iB: "i < B" by simp
  from random_point_sampled [OF Suc.prems, of fl uniform lower upper g]
  obtain x1 g1 where rp: "random_point fl uniform d lower upper 0 x g = (x1, g1)"
    and s1: "sampled fl uniform d lower upper x1" by blast
  let ?p1 = "snd (evaluate_function x1 p)"
  let ?p2 = "if 0 < c then snd (evaluate_constraint x1 ?p1) else ?p1"
  have eq: "random_loop fl uniform d c lower upper B i x p g =
            random_loop fl uniform d c lower upper B (Suc i) x1 ?p2 g1"
    using iB rp by (simp add: random_loop.simps [of fl uniform d c lower upper B i x p g] Let_def)
  obtain first where h2: "history ?p2 = history p @ first"
    and c2: "calls first = (Objective, x1) # (if 0 < c then [(Constraint, x1)] else [])"
    by (cases "0 < c") (simp_all add: evaluate_function_def coco_evaluate_function_def
        history_evaluate_constraint calls_def)
  have len1: "length x1 = d" using s1 by (simp add: sampled_def)
  have "n = B - Suc i" using Suc.hyps(2) by simp
  from Suc.hyps(1) [OF this len1, of ?p2 g1]
  obtain p' g' new xs where
    r: "random_loop fl uniform d c lower upper B (Suc i) x1 ?p2 g1 = (p', g')"
    and h: "history p' = history ?p2 @ new"
    and l: "length xs = B - Suc i"
    and k: "calls new = rounds c xs"
    and s: "\<forall>y\<in>set xs. sampled fl uniform d lower upper y"
    by blast
  have r': "random_loop fl uniform d c lower upper B i x p g = (p', g')" using eq r by simp
  have h': "history p' = history p @ (first @ new)" using h h2 by simp
  have l': "length (x1 # xs) = B - i" using l iB by simp
  have k': "calls (first @ new) = rounds c (x1 # xs)"
    using k c2 by (simp add: calls_def rounds_Cons)
  have s': "\<forall>y\<in>set (x1 # xs). sampled fl uniform d lower upper y" using s s1 by simp
  show ?case
    by (intro exI [of _ p'] exI [of _ g'] exI [of _ "first @ new"] exI [of _ "x1 # xs"]
        conjI r' h' l' k' s')
qed

lemma exact_sampled_within:
  assumes "sampled exact uniform d lower upper x"
    and "\<forall>g. 0 \<le> fst (uniform g) \<and> fst (uniform g) < 1"
    and "\<forall>j<d. lower ! j < upper ! j"
  shows "within_half_open d lower upper x"
  unfolding within_half_open_def
proof (intro conjI allI impI)
  show "length x = d" using assms(1) by (simp add: sampled_def)
next
  fix j assume j: "j < d"
  from assms(1) j obtain g where
    x: "x ! j = lower ! j + fst (uniform g) * (upper ! j - lower ! j)"
    by (auto simp: sampled_def dadd_def dmul_def dsub_def exact_def)
  let ?u = "fst (uniform g)"
  let ?w = "upper ! j - lower ! j"
  have w: "0 < ?w" using assms(3) j by simp
  have u: "0 \<le> ?u" "?u < 1" using assms(2) by auto
  have "0 \<le> ?u * ?w" using u w by simp
  then show "lower ! j \<le> x ! j" using x by simp
  have "?u * ?w < 1 * ?w" using u w by (intro mult_strict_right_mono) auto
  then show "x ! j < upper ! j" using x by simp
qed

lemma my_random_search_rounds:
  assumes "dimension \<le> length lower" "dimension \<le> length upper"
  shows "\<exists>p' g' new xs.
           my_random_search fl uniform dimension number_of_constraints lower upper max_budget
             p g = Inr (p', g') \<and>
           history p' = history p @ new \<and>
           length xs = max_budget \<and>
           calls new = rounds number_of_constraints xs \<and>
           (\<forall>x\<in>set xs. sampled fl uniform dimension lower upper x)"
proof -
  have unfold: "my_random_search fl uniform dimension number_of_constraints lower upper
      max_budget p g =
    Inr (random_loop fl uniform dimension number_of_constraints lower upper max_budget 0
           (replicate dimension 0) p g)"
    using assms by (simp add: my_random_search_def not_less)
  have "length (replicate dimension (0::real)) = dimension" by simp
  from random_loop_spec [OF this, of fl uniform number_of_constraints lower upper max_budget 0 p g]
  obtain p' g' new xs where
    r: "random_loop fl uniform dimension number_of_constraints lower upper max_budget 0
          (replicate dimension 0) p g = (p', g')"
    and h: "history p' = history p @ new"
    and l: "length xs = max_budget - 0"
    and k: "calls new = rounds number_of_constraints xs"
    and s: "\<forall>x\<in>set xs. sampled fl uniform dimension lower upper x"
    by blast
  have r': "my_random_search fl uniform dimension number_of_constraints lower upper
      max_budget p g = Inr (p', g')"
    using unfold r by simp
  have l': "length xs = max_budget" using l by simp
  show ?thesis
    by (intro exI [of _ p'] exI [of _ g'] exI [of _ new] exI [of _ xs] conjI r' h l' k s)
qed

text \<open>
  Claim C7, as the code has it. For every budget and all bound vectors with \<open>dimension\<close>
  entries, \<open>my_random_search\<close> performs exactly \<open>budget\<close> rounds: an objective evaluation
  and, when the number of constraints is positive, a constraint evaluation of the same
  point right after it. Each coordinate of a point is \<open>lower[j] + u * (upper[j] -
  lower[j])\<close> for a number \<open>u\<close> drawn from the generator. In exact arithmetic, with a
  generator that draws from \<open>[0, 1)\<close> and with \<open>lower[j] < upper[j]\<close>, every coordinate lies in
  \<open>[lower[j], upper[j])\<close>.
\<close>

theorem random_search_evaluations:
  assumes "dimension \<le> length lower" "dimension \<le> length upper"
  shows "\<exists>p' g' new xs.
           my_random_search fl uniform dimension number_of_constraints lower upper max_budget
             p g = Inr (p', g') \<and>
           history p' = history p @ new \<and>
           length xs = max_budget \<and>
           calls new = rounds number_of_constraints xs \<and>
           (\<forall>x\<in>set xs. sampled fl uniform dimension lower upper x) \<and>
           (fl = exact \<and> (\<forall>g. 0 \<le> fst (uniform g) \<and> fst (uniform g) < 1) \<and>
            (\<forall>j<dimension. lower ! j < upper ! j) \<longrightarrow>
              (\<forall>x\<in>set xs. within_half_open dimension lower upper x))"
proof -
  from my_random_search_rounds [OF assms, of fl uniform number_of_constraints max_budget p g]
  obtain p' g' new xs where
    r: "my_random_search fl uniform dimension number_of_constraints lower upper
      max_budget p g = Inr (p', g')"
    and h: "history p' = history p @ new"
    and l: "length xs = max_budget"
    and k: "calls new = rounds number_of_constraints xs"
    and s: "\<forall>x\<in>set xs. sampled fl uniform dimension lower upper x"
    by blast
  have b: "fl = exact \<and> (\<forall>g. 0 \<le> fst (uniform g) \<and> fst (uniform g) < 1) \<and>
            (\<forall>j<dimension. lower ! j < upper ! j) \<longrightarrow>
              (\<forall>x\<in>set xs. within_half_open dimension lower upper x)"
    using s exact_sampled_within by blast
  show ?thesis
    by (intro exI [of _ p'] exI [of _ g'] exI [of _ new] exI [of _ xs] conjI r h l k s b)
qed

theorem random_search_evaluations_witness:
  "2 \<le> length [-5, -5::real] \<and> 2 \<le> length [5, 5::real] \<and>
   (\<exists>p' g' new xs.
      my_random_search exact (\<lambda>g::nat. (1 / 2, g + 1)) 2 1 [-5, -5] [5, 5] 3
        (fresh_problem 1 1 [-5, -5] [5, 5]) 0 = Inr (p', g') \<and>
      history p' = new \<and> length xs = 3 \<and> calls new = rounds 1 xs \<and>
      list_all (within_half_open 2 [-5, -5] [5, 5]) xs)"
proof -
  have h1: "2 \<le> length [-5, -5::real]" and h2: "2 \<le> length [5, 5::real]" by simp_all
  from random_search_evaluations [OF h1 h2, where fl = exact
      and uniform = "\<lambda>g::nat. (1 / 2, g + 1)" and number_of_constraints = 1
      and max_budget = 3 and p = "fresh_problem 1 1 [-5, -5] [5, 5]" and g = 0]
  obtain p' g' new xs where
    r: "my_random_search exact (\<lambda>g::nat. (1 / 2, g + 1)) 2 1 [-5, -5] [5, 5] 3
        (fresh_problem 1 1 [-5, -5] [5, 5]) 0 = Inr (p', g')"
    and h: "history p' = history (fresh_problem 1 1 [-5, -5] [5, 5]) @ new"
    and l: "length xs = 3"
    and k: "calls new = rounds 1 xs"
    and b: "exact = exact \<and>
            (\<forall>g::nat. 0 \<le> fst (1 / 2 :: real, g + 1) \<and> fst (1 / 2 :: real, g + 1) < 1) \<and>
            (\<forall>j<2. [-5, -5::real] ! j < [5, 5] ! j) \<longrightarrow>
              (\<forall>x\<in>set xs. within_half_open 2 [-5, -5] [5, 5] x)"
    by blast
  have "\<forall>j<2. [-5, -5::real] ! j < [5, 5] ! j" by (simp add: less_Suc_eq numeral_2_eq_2)
  with b have w: "list_all (within_half_open 2 [-5, -5] [5, 5]) xs"
    by (simp add: list_all_iff)
  have h': "history p' = new" using h by (simp add: fresh_problem_def)
  show ?thesis
    by (intro conjI h1 h2 exI [of _ p'] exI [of _ g'] exI [of _ new] exI [of _ xs] r h' l k w)
qed

text \<open>
  The claim as stated, for all bound vectors, fails where a lower bound is not below its
  upper bound: with both bounds 0, the sampled coordinate is 0, and the interval \<open>[0, 0)\<close>
  is empty.
\<close>

theorem random_search_bounds_counterexample:
  "\<exists>p' g'. my_random_search binary64 (\<lambda>g::nat. (1 / 2, g + 1)) 1 0 [0] [0] 1
              (fresh_problem 1 0 [0] [0]) 0 = Inr (p', g') \<and>
     calls (history p') = [(Objective, [0])] \<and>
     \<not> within_half_open 1 [0] [0] [0]"
  by (simp add: my_random_search_def random_loop.simps random_point.simps
        evaluate_function_def coco_evaluate_function_def fresh_problem_def calls_def
        dadd_def dmul_def dsub_def binary64_def within_half_open_def Let_def)

section \<open>Directed search: warm-up, budget and exceptions\<close>

lemma history_warmed_up: "history (warmed_up p) = history p @ warm_up_pair p"
  by (simp add: warmed_up_def warm_up_pair_def evaluate_function_def evaluate_constraint_def
      coco_evaluate_function_def coco_evaluate_constraint_def add.commute add.left_commute)

lemma count_warmed_up:
  "get_evaluations (warmed_up p) + get_evaluations_constraints (warmed_up p) =
     get_evaluations p + get_evaluations_constraints p + 2"
  by (simp add: warmed_up_def evaluate_function_def evaluate_constraint_def
      coco_evaluate_function_def coco_evaluate_constraint_def)

lemma initial_solution_warmed_up: "get_initial_solution (warmed_up p) = get_initial_solution p"
  by (simp add: warmed_up_def evaluate_function_def evaluate_constraint_def
      coco_evaluate_function_def coco_evaluate_constraint_def)

lemma evalFuncWrapper_cases:
  "(evalFuncWrapper mb d x p = Inl BudgetExhaustedException \<and>
      mb < get_evaluations p + get_evaluations_constraints p) \<or>
   (\<exists>y p'. evalFuncWrapper mb d x p = Inr (y, p') \<and>
      (\<exists>ev. history p' = history p @ [ev] \<and> count_before ev \<le> mb))"
  by (simp add: evalFuncWrapper_def evaluate_function_def coco_evaluate_function_def Let_def
      not_less)

lemma evalConsWrapper_cases:
  "(evalConsWrapper mb d c x p = Inl BudgetExhaustedException \<and>
      mb < get_evaluations p + get_evaluations_constraints p) \<or>
   (\<exists>y p'. evalConsWrapper mb d c x p = Inr (y, p') \<and>
      (\<exists>ev. history p' = history p @ [ev] \<and> count_before ev \<le> mb))"
  by (simp add: evalConsWrapper_def evaluate_constraint_def coco_evaluate_constraint_def Let_def
      not_less)

lemma solver_run_history:
  "\<exists>later. history (snd (solver_run s mb d c p)) = history p @ later \<and>
           (\<forall>ev\<in>set later. count_before ev \<le> mb)"
proof (induction s arbitrary: p)
  case (Terminated info)
  then show ?case by simp
next
  case (Throws what)
  then show ?case by simp
next
  case Throws_other
  then show ?case by simp
next
  case (Eval_func x k)
  from evalFuncWrapper_cases [of mb d x p] show ?case
  proof (elim disjE conjE exE)
    assume "evalFuncWrapper mb d x p = Inl BudgetExhaustedException"
    then show ?thesis by simp
  next
    fix y p' ev
    assume w: "evalFuncWrapper mb d x p = Inr (y, p')"
      and h: "history p' = history p @ [ev]" and c: "count_before ev \<le> mb"
    from Eval_func [of "k y" p'] have "\<exists>later. history (snd (solver_run (k y) mb d c p')) = history p' @ later \<and>
           (\<forall>ev\<in>set later. count_before ev \<le> mb)" by (simp add: rangeI)
    then obtain later where l: "history (snd (solver_run (k y) mb d c p')) = history p' @ later"
      and a: "\<forall>ev\<in>set later. count_before ev \<le> mb" by blast
    have "history (snd (solver_run (Eval_func x k) mb d c p)) = history p @ (ev # later)"
      using w l h by simp
    moreover have "\<forall>e\<in>set (ev # later). count_before e \<le> mb" using a c by simp
    ultimately show ?thesis by blast
  qed
next
  case (Eval_cons x k)
  from evalConsWrapper_cases [of mb d c x p] show ?case
  proof (elim disjE conjE exE)
    assume "evalConsWrapper mb d c x p = Inl BudgetExhaustedException"
    then show ?thesis by simp
  next
    fix y p' ev
    assume w: "evalConsWrapper mb d c x p = Inr (y, p')"
      and h: "history p' = history p @ [ev]" and cb: "count_before ev \<le> mb"
    from Eval_cons [of "k y" p'] have "\<exists>later. history (snd (solver_run (k y) mb d c p')) = history p' @ later \<and>
           (\<forall>ev\<in>set later. count_before ev \<le> mb)" by (simp add: rangeI)
    then obtain later where l: "history (snd (solver_run (k y) mb d c p')) = history p' @ later"
      and a: "\<forall>ev\<in>set later. count_before ev \<le> mb" by blast
    have "history (snd (solver_run (Eval_cons x k) mb d c p)) = history p @ (ev # later)"
      using w l h by simp
    moreover have "\<forall>e\<in>set (ev # later). count_before e \<le> mb" using a cb by simp
    ultimately show ?thesis by blast
  qed
qed

lemma solver_run_over_budget:
  assumes "mb < get_evaluations p + get_evaluations_constraints p"
  shows "solver_run s mb d c p =
           (case s of Terminated info \<Rightarrow> (Inr info, p)
            | Throws what \<Rightarrow> (Inl (Std_exception what), p)
            | Throws_other \<Rightarrow> (Inl Other_throwable, p)
            | _ \<Rightarrow> (Inl BudgetExhaustedException, p))"
  using assms
  by (cases s) (simp_all add: evalFuncWrapper_def evalConsWrapper_def)

lemma my_search_unfold:
  assumes "nobj = 1" "0 < c"
  shows "my_search RayEs d nobj c lower upper mb p =
     (case solver_run (solver_of RayEs d lower upper p) mb d c (warmed_up p) of
        (Inr info, p3) \<Rightarrow> (Inr (Solver_returned, [''Termination criterion: '' @ info @ ''.'']), p3)
      | (Inl BudgetExhaustedException, p3) \<Rightarrow> (Inr (Budget_exhausted, []), p3)
      | (Inl (Std_exception what), p3) \<Rightarrow> (Inr (Solver_failed, [''unexpected error: '' @ what]), p3)
      | (Inl Other_throwable, p3) \<Rightarrow> (Inl Uncaught_throwable, p3))"
  using assms
  by (simp add: my_search_def solver_of_def warmed_up_def Let_def evaluate_function_def
      evaluate_constraint_def coco_evaluate_function_def coco_evaluate_constraint_def)

lemma my_search_returns:
  assumes "nobj = 1" "0 < c"
  shows "\<exists>res p'.
           my_search RayEs d nobj c lower upper mb p = (res, p') \<and>
           p' = snd (solver_run (solver_of RayEs d lower upper p) mb d c (warmed_up p)) \<and>
           (case solver_outcome RayEs d c lower upper mb p of
              Inl BudgetExhaustedException \<Rightarrow> res = Inr (Budget_exhausted, [])
            | Inl (Std_exception what) \<Rightarrow>
                res = Inr (Solver_failed, [''unexpected error: '' @ what])
            | Inl Other_throwable \<Rightarrow> res = Inl Uncaught_throwable
            | Inr info \<Rightarrow>
                res = Inr (Solver_returned, [''Termination criterion: '' @ info @ ''.'']))"
proof -
  obtain out p3 where
    r: "solver_run (solver_of RayEs d lower upper p) mb d c (warmed_up p) = (out, p3)"
    by (cases "solver_run (solver_of RayEs d lower upper p) mb d c (warmed_up p)") blast
  then have o: "solver_outcome RayEs d c lower upper mb p = out"
    by (simp add: solver_outcome_def)
  show ?thesis
  proof (cases out)
    case (Inr info)
    then show ?thesis using my_search_unfold [OF assms, of RayEs d lower upper mb p] r o by simp
  next
    case (Inl e)
    then show ?thesis
      using my_search_unfold [OF assms, of RayEs d lower upper mb p] r o by (cases e) simp_all
  qed
qed

lemma my_search_warm_up:
  assumes "nobj = 1" "0 < c"
  shows "\<exists>res p' later.
           my_search RayEs d nobj c lower upper mb p = (res, p') \<and>
           p' = snd (solver_run (solver_of RayEs d lower upper p) mb d c (warmed_up p)) \<and>
           ((\<exists>path printed. res = Inr (path, printed)) \<or> res = Inl Uncaught_throwable) \<and>
           history p' = history p @ warm_up_pair p @ later \<and>
           (\<forall>ev\<in>set later. count_before ev \<le> mb) \<and>
           (mb = 0 \<and> get_evaluations p + get_evaluations_constraints p + 2 \<noteq> 0 \<longrightarrow>
              later = [] \<and>
              (res = Inr (Budget_exhausted, []) \<longleftrightarrow>
                 requests_evaluation (solver_of RayEs d lower upper p)) \<and>
              (\<forall>what. res = Inr (Solver_failed, [''unexpected error: '' @ what]) \<longleftrightarrow>
                 solver_of RayEs d lower upper p = Throws what) \<and>
              (\<forall>info. res = Inr (Solver_returned, [''Termination criterion: '' @ info @ ''.'']) \<longleftrightarrow>
                 solver_of RayEs d lower upper p = Terminated info) \<and>
              (res = Inl Uncaught_throwable \<longleftrightarrow> solver_of RayEs d lower upper p = Throws_other))"
proof -
  let ?S = "solver_of RayEs d lower upper p"
  from my_search_returns [OF assms, of RayEs d lower upper mb p]
  obtain res p' where
    r: "my_search RayEs d nobj c lower upper mb p = (res, p')"
    and p': "p' = snd (solver_run ?S mb d c (warmed_up p))"
    and k: "case solver_outcome RayEs d c lower upper mb p of
              Inl BudgetExhaustedException \<Rightarrow> res = Inr (Budget_exhausted, [])
            | Inl (Std_exception what) \<Rightarrow>
                res = Inr (Solver_failed, [''unexpected error: '' @ what])
            | Inl Other_throwable \<Rightarrow> res = Inl Uncaught_throwable
            | Inr info \<Rightarrow>
                res = Inr (Solver_returned, [''Termination criterion: '' @ info @ ''.''])"
    by blast
  have n: "(\<exists>path printed. res = Inr (path, printed)) \<or> res = Inl Uncaught_throwable"
    using k by (auto split: sum.splits exception.splits)
  from solver_run_history [of ?S mb d c "warmed_up p"]
  obtain later where
    h: "history (snd (solver_run ?S mb d c (warmed_up p))) = history (warmed_up p) @ later"
    and a: "\<forall>ev\<in>set later. count_before ev \<le> mb"
    by blast
  have h': "history p' = history p @ warm_up_pair p @ later"
    using h p' by (simp add: history_warmed_up)
  have z: "later = [] \<and>
              (res = Inr (Budget_exhausted, []) \<longleftrightarrow> requests_evaluation ?S) \<and>
              (\<forall>what. res = Inr (Solver_failed, [''unexpected error: '' @ what]) \<longleftrightarrow>
                 ?S = Throws what) \<and>
              (\<forall>info. res = Inr (Solver_returned, [''Termination criterion: '' @ info @ ''.'']) \<longleftrightarrow>
                 ?S = Terminated info) \<and>
              (res = Inl Uncaught_throwable \<longleftrightarrow> ?S = Throws_other)"
    if mb: "mb = 0" and nz: "get_evaluations p + get_evaluations_constraints p + 2 \<noteq> 0"
  proof -
    have "mb < get_evaluations (warmed_up p) + get_evaluations_constraints (warmed_up p)"
      using mb nz by (simp add: count_warmed_up word_greater_zero_iff)
    note ob = solver_run_over_budget [OF this, of ?S d c]
    have "snd (solver_run ?S mb d c (warmed_up p)) = warmed_up p"
      using ob by (cases ?S) simp_all
    then have l: "later = []" using h by simp
    have "(res = Inr (Budget_exhausted, []) \<longleftrightarrow> requests_evaluation ?S) \<and>
              (\<forall>what. res = Inr (Solver_failed, [''unexpected error: '' @ what]) \<longleftrightarrow>
                 ?S = Throws what) \<and>
              (\<forall>info. res = Inr (Solver_returned, [''Termination criterion: '' @ info @ ''.'']) \<longleftrightarrow>
                 ?S = Terminated info) \<and>
              (res = Inl Uncaught_throwable \<longleftrightarrow> ?S = Throws_other)"
      using ob k by (cases ?S) (simp_all add: requests_evaluation_def solver_outcome_def)
    with l show ?thesis by simp
  qed
  have z': "mb = 0 \<and> get_evaluations p + get_evaluations_constraints p + 2 \<noteq> 0 \<longrightarrow>
              later = [] \<and>
              (res = Inr (Budget_exhausted, []) \<longleftrightarrow> requests_evaluation ?S) \<and>
              (\<forall>what. res = Inr (Solver_failed, [''unexpected error: '' @ what]) \<longleftrightarrow>
                 ?S = Throws what) \<and>
              (\<forall>info. res = Inr (Solver_returned, [''Termination criterion: '' @ info @ ''.'']) \<longleftrightarrow>
                 ?S = Terminated info) \<and>
              (res = Inl Uncaught_throwable \<longleftrightarrow> ?S = Throws_other)"
    using z by blast
  show ?thesis
    by (intro exI [of _ res] exI [of _ p'] exI [of _ later] conjI r p' n h' a z')
qed

lemma counters_warmed_up:
  "get_evaluations (warmed_up p) = get_evaluations p + 1 \<and>
   get_evaluations_constraints (warmed_up p) = get_evaluations_constraints p + 1"
  by (simp add: warmed_up_def evaluate_function_def evaluate_constraint_def
      coco_evaluate_function_def coco_evaluate_constraint_def)

text \<open>
  Claim C6, as the code has it. Where the assertions of \<open>my_search\<close> hold: when the solver's
  run surfaces the Budget Exhausted exception of a wrapper, the first \<open>catch\<close> clause takes
  it, nothing is printed and \<open>my_search\<close> returns normally; when it surfaces another
  exception derived from \<open>std::exception\<close>, the second clause takes it, the message is printed
  after \<open>unexpected error:\<close> and \<open>my_search\<close> returns normally. An object of any other type
  is caught by neither clause and leaves \<open>my_search\<close>. So \<open>my_search\<close> returns normally
  exactly when the solver's run does not surface such an object.
\<close>

theorem my_search_catches:
  assumes "number_of_objectives = 1" "0 < number_of_constraints"
  shows "\<exists>res p'.
           my_search RayEs dimension number_of_objectives number_of_constraints lower upper
             max_budget p = (res, p') \<and>
           (solver_outcome RayEs dimension number_of_constraints lower upper max_budget p
              = Inl BudgetExhaustedException \<longrightarrow>
            res = Inr (Budget_exhausted, [])) \<and>
           (\<forall>what. solver_outcome RayEs dimension number_of_constraints lower upper max_budget p
              = Inl (Std_exception what) \<longrightarrow>
            res = Inr (Solver_failed, [''unexpected error: '' @ what])) \<and>
           (solver_outcome RayEs dimension number_of_constraints lower upper max_budget p
              = Inl Other_throwable \<longrightarrow>
            res = Inl Uncaught_throwable) \<and>
           ((\<exists>path printed. res = Inr (path, printed)) \<longleftrightarrow>
            solver_outcome RayEs dimension number_of_constraints lower upper max_budget p
              \<noteq> Inl Other_throwable)"
proof -
  let ?O = "solver_outcome RayEs dimension number_of_constraints lower upper max_budget p"
  from my_search_returns [OF assms, of RayEs dimension lower upper max_budget p]
  obtain res p' where
    r: "my_search RayEs dimension number_of_objectives number_of_constraints lower upper
             max_budget p = (res, p')"
    and c: "case ?O of
              Inl BudgetExhaustedException \<Rightarrow> res = Inr (Budget_exhausted, [])
            | Inl (Std_exception what) \<Rightarrow>
                res = Inr (Solver_failed, [''unexpected error: '' @ what])
            | Inl Other_throwable \<Rightarrow> res = Inl Uncaught_throwable
            | Inr info \<Rightarrow>
                res = Inr (Solver_returned, [''Termination criterion: '' @ info @ ''.''])"
    by blast
  have b: "?O = Inl BudgetExhaustedException \<longrightarrow> res = Inr (Budget_exhausted, [])"
    using c by auto
  have f: "\<forall>what. ?O = Inl (Std_exception what) \<longrightarrow>
            res = Inr (Solver_failed, [''unexpected error: '' @ what])"
    using c by auto
  have u: "?O = Inl Other_throwable \<longrightarrow> res = Inl Uncaught_throwable"
    using c by auto
  have n: "(\<exists>path printed. res = Inr (path, printed)) \<longleftrightarrow> ?O \<noteq> Inl Other_throwable"
    using c by (auto split: sum.splits exception.splits)
  show ?thesis by (intro exI [of _ res] exI [of _ p'] conjI r b f u n)
qed

theorem my_search_catches_witness:
  "(1::nat) = 1 \<and> (0::nat) < 1 \<and>
   solver_outcome (\<lambda>l u i. Eval_func i (\<lambda>y. Eval_cons u (\<lambda>c. Terminated ''sigma''))) 2 1
     [-5, -5] [5, 5] 2 (fresh_problem 1 1 [-5, -5] [5, 5]) = Inl BudgetExhaustedException \<and>
   fst (my_search (\<lambda>l u i. Eval_func i (\<lambda>y. Eval_cons u (\<lambda>c. Terminated ''sigma''))) 2 1 1
     [-5, -5] [5, 5] 2 (fresh_problem 1 1 [-5, -5] [5, 5])) = Inr (Budget_exhausted, []) \<and>
   solver_outcome (\<lambda>l u i. Eval_func i (\<lambda>y. Throws ''singular matrix'')) 2 1
     [-5, -5] [5, 5] 2 (fresh_problem 1 1 [-5, -5] [5, 5])
     = Inl (Std_exception ''singular matrix'') \<and>
   fst (my_search (\<lambda>l u i. Eval_func i (\<lambda>y. Throws ''singular matrix'')) 2 1 1
     [-5, -5] [5, 5] 2 (fresh_problem 1 1 [-5, -5] [5, 5]))
     = Inr (Solver_failed, [''unexpected error: singular matrix''])"
proof -
  let ?R = "\<lambda>l u i. Eval_func i (\<lambda>y. Eval_cons u (\<lambda>c. Terminated ''sigma''))"
  let ?T = "\<lambda>l u i. Eval_func i (\<lambda>y. Throws ''singular matrix'')"
  let ?P = "fresh_problem 1 1 [-5, -5] [5, 5]"
  have o: "solver_outcome ?R 2 1 [-5, -5] [5, 5] 2 ?P = Inl BudgetExhaustedException"
    by (simp add: solver_outcome_def solver_of_def warmed_up_def fresh_problem_def
        evalFuncWrapper_def evalConsWrapper_def evaluate_function_def evaluate_constraint_def
        coco_evaluate_function_def coco_evaluate_constraint_def Let_def)
  have o': "solver_outcome ?T 2 1 [-5, -5] [5, 5] 2 ?P = Inl (Std_exception ''singular matrix'')"
    by (simp add: solver_outcome_def solver_of_def warmed_up_def fresh_problem_def
        evalFuncWrapper_def evalConsWrapper_def evaluate_function_def evaluate_constraint_def
        coco_evaluate_function_def coco_evaluate_constraint_def Let_def)
  have h1: "(1::nat) = 1" and h2: "(0::nat) < 1" by simp_all
  from my_search_catches [OF h1 h2, of ?R 2 "[-5, -5]" "[5, 5]" 2 ?P] o
  have a: "fst (my_search ?R 2 1 1 [-5, -5] [5, 5] 2 ?P) = Inr (Budget_exhausted, [])"
    by auto
  from my_search_catches [OF h1 h2, of ?T 2 "[-5, -5]" "[5, 5]" 2 ?P] o'
  have b: "fst (my_search ?T 2 1 1 [-5, -5] [5, 5] 2 ?P)
      = Inr (Solver_failed, [''unexpected error: singular matrix''])"
    by auto
  show ?thesis by (intro conjI h1 h2 o a o' b)
qed

text \<open>
  The claim as stated fails for a solver that throws an object whose type is not derived
  from \<open>std::exception\<close>: neither \<open>catch\<close> clause takes it, \<open>my_search\<close> does not return
  normally, and the run of the experiment ends there.
\<close>

theorem my_search_uncaught_counterexample:
  "(\<exists>p'. my_search (\<lambda>l u i. Eval_func i (\<lambda>y. Throws_other)) 2 1 1 [-5, -5] [5, 5] 200000
            (fresh_problem 1 1 [-5, -5] [5, 5]) = (Inl Uncaught_throwable, p') \<and>
          calls (history p') = [(Constraint, [-5, -5]), (Objective, [-5, -5]),
                                (Objective, [-5, -5])]) \<and>
   snd (restart_loop (directed_search (\<lambda>l u i. Eval_func i (\<lambda>y. Throws_other)))
          BUDGET_MULTIPLIER INDEPENDENT_RESTARTS 1 (fresh_problem 1 1 [-5, -5] [5, 5]) [])
     = Inl Uncaught_throwable"
proof -
  have u: "[0..<2] = [0, 1]" by (simp add: upt_rec)
  show ?thesis
    by (simp add: restart_loop.simps evaluations_remaining_def fresh_problem_def
        BUDGET_MULTIPLIER_def INDEPENDENT_RESTARTS_def Let_def directed_search_def
        my_search_def calls_def evaluate_function_def evaluate_constraint_def word_sle_eq
        evalFuncWrapper_def coco_evaluate_function_def coco_evaluate_constraint_def u)
qed

text \<open>
  Claim C3, as the code has it. On every invocation of \<open>my_search\<close> that passes its two
  assertions, the solver is run on the problem as it is after exactly one constraint
  evaluation followed by one objective evaluation at the problem's initial solution,
  whatever \<open>max_budget\<close> is; every evaluation after this pair is made by the solver's run
  through the wrappers. With \<open>max_budget = 0\<close> (and counters that do not wrap around to 0)
  no further evaluation occurs. The way \<open>my_search\<close> ends is then decided by the solver's
  first step: by Budget Exhausted exactly when this step is a call of one of the
  callables, by the solver's failure exactly when the solver throws an exception derived
  from \<open>std::exception\<close> before that, by the solver's return when the solver returns at
  once; in these cases \<open>my_search\<close> returns normally. It does not return when the solver at
  once throws an object of another type.
\<close>

theorem directed_search_warm_up:
  assumes "number_of_objectives = 1" "0 < number_of_constraints"
  shows "\<exists>res p' later.
           my_search RayEs dimension number_of_objectives number_of_constraints lower upper
             max_budget p = (res, p') \<and>
           p' = snd (solver_run (solver_of RayEs dimension lower upper p) max_budget dimension
                       number_of_constraints (warmed_up p)) \<and>
           history (warmed_up p) = history p @ warm_up_pair p \<and>
           get_evaluations (warmed_up p) = get_evaluations p + 1 \<and>
           get_evaluations_constraints (warmed_up p) = get_evaluations_constraints p + 1 \<and>
           history p' = history (warmed_up p) @ later \<and>
           (max_budget = 0 \<and> get_evaluations p + get_evaluations_constraints p + 2 \<noteq> 0 \<longrightarrow>
              later = [] \<and>
              (res = Inr (Budget_exhausted, []) \<longleftrightarrow>
                 requests_evaluation (solver_of RayEs dimension lower upper p)) \<and>
              (\<forall>what. res = Inr (Solver_failed, [''unexpected error: '' @ what]) \<longleftrightarrow>
                 solver_of RayEs dimension lower upper p = Throws what) \<and>
              (\<forall>info. res = Inr (Solver_returned, [''Termination criterion: '' @ info @ ''.'']) \<longleftrightarrow>
                 solver_of RayEs dimension lower upper p = Terminated info) \<and>
              (res = Inl Uncaught_throwable \<longleftrightarrow>
                 solver_of RayEs dimension lower upper p = Throws_other))"
proof -
  let ?S = "solver_of RayEs dimension lower upper p"
  from my_search_warm_up [OF assms, of RayEs dimension lower upper max_budget p]
  obtain res p' later where
    r: "my_search RayEs dimension number_of_objectives number_of_constraints lower upper
             max_budget p = (res, p')"
    and l: "p' = snd (solver_run ?S max_budget dimension number_of_constraints (warmed_up p))"
    and h: "history p' = history p @ warm_up_pair p @ later"
    and z: "max_budget = 0 \<and> get_evaluations p + get_evaluations_constraints p + 2 \<noteq> 0 \<longrightarrow>
              later = [] \<and>
              (res = Inr (Budget_exhausted, []) \<longleftrightarrow> requests_evaluation ?S) \<and>
              (\<forall>what. res = Inr (Solver_failed, [''unexpected error: '' @ what]) \<longleftrightarrow>
                 ?S = Throws what) \<and>
              (\<forall>info. res = Inr (Solver_returned, [''Termination criterion: '' @ info @ ''.'']) \<longleftrightarrow>
                 ?S = Terminated info) \<and>
              (res = Inl Uncaught_throwable \<longleftrightarrow> ?S = Throws_other)"
    by blast
  note w = history_warmed_up [of p]
  note c1 = counters_warmed_up [of p, THEN conjunct1]
  note c2 = counters_warmed_up [of p, THEN conjunct2]
  have h': "history p' = history (warmed_up p) @ later"
    using h w by simp
  show ?thesis
    by (intro exI [of _ res] exI [of _ p'] exI [of _ later] conjI r l w c1 c2 h' z)
qed

theorem directed_search_warm_up_witness:
  "(1::nat) = 1 \<and> (0::nat) < 1 \<and>
   (\<exists>p'. my_search (\<lambda>l u i. Eval_func i (\<lambda>y. Terminated ''sigma'')) 2 1 1 [-5, -5] [5, 5] 0
        (fresh_problem 1 1 [-5, -5] [5, 5]) = (Inr (Budget_exhausted, []), p') \<and>
      history p' = [Evaluation Constraint [-5, -5] 0, Evaluation Objective [-5, -5] 1])"
proof -
  let ?R = "\<lambda>l u i. Eval_func i (\<lambda>y. Terminated ''sigma'')"
  let ?P = "fresh_problem 1 1 [-5, -5] [5, 5]"
  have h1: "(1::nat) = 1" and h2: "(0::nat) < 1" by simp_all
  from directed_search_warm_up [OF h1 h2, of ?R 2 "[-5, -5]" "[5, 5]" 0 ?P]
  obtain res p' later where
    r: "my_search ?R 2 1 1 [-5, -5] [5, 5] 0 ?P = (res, p')"
    and w: "history (warmed_up ?P) = history ?P @ warm_up_pair ?P"
    and h: "history p' = history (warmed_up ?P) @ later"
    and z: "(0::size_t) = 0 \<and> get_evaluations ?P + get_evaluations_constraints ?P + 2 \<noteq> 0 \<longrightarrow>
              later = [] \<and>
              (res = Inr (Budget_exhausted, []) \<longleftrightarrow>
                 requests_evaluation (solver_of ?R 2 [-5, -5] [5, 5] ?P))"
    by blast
  have nz: "get_evaluations ?P + get_evaluations_constraints ?P + 2 \<noteq> 0"
    by (simp add: fresh_problem_def)
  have q: "requests_evaluation (solver_of ?R 2 [-5, -5] [5, 5] ?P)"
    by (simp add: requests_evaluation_def solver_of_def)
  from z nz q have l: "later = []" and pa: "res = Inr (Budget_exhausted, [])" by simp_all
  have h': "history p' = [Evaluation Constraint [-5, -5] 0, Evaluation Objective [-5, -5] 1]"
    using h w l by (simp add: warm_up_pair_def fresh_problem_def)
  from r pa have r': "my_search ?R 2 1 1 [-5, -5] [5, 5] 0 ?P = (Inr (Budget_exhausted, []), p')"
    by simp
  show ?thesis
    by (intro conjI h1 h2 exI [of _ p'] r' h')
qed

text \<open>
  The claim as stated fails for a solver that fails before it evaluates anything: with
  \<open>max_budget = 0\<close> \<open>my_search\<close> then ends by the solver's failure, not by Budget Exhausted.
\<close>

theorem directed_search_budget_zero_counterexample:
  "\<exists>p'. my_search (\<lambda>l u i. Throws ''no feasible ray'') 2 1 1 [-5, -5] [5, 5] 0
           (fresh_problem 1 1 [-5, -5] [5, 5])
         = (Inr (Solver_failed, [''unexpected error: no feasible ray'']), p') \<and>
        history p' = [Evaluation Constraint [-5, -5] 0, Evaluation Objective [-5, -5] 1]"
  by (simp add: my_search_def fresh_problem_def evaluate_function_def evaluate_constraint_def
      coco_evaluate_function_def coco_evaluate_constraint_def Let_def)

section \<open>The restart loop\<close>

lemma budgets_append: "budgets (xs @ ys) = budgets xs @ budgets ys"
  by (induction xs rule: budgets.induct) simp_all

lemma restart_loop_stop:
  assumes "run \<le> 1 + r" "stop_before m p"
  shows "restart_loop s m r run p events = (events, Inr p)"
  using assms by (auto simp: restart_loop.simps [of s m r run p events] stop_before_def Let_def)

lemma restart_loop_end:
  assumes "\<not> run \<le> 1 + r"
  shows "restart_loop s m r run p events = (events, Inr p)"
  using assms by (simp add: restart_loop.simps [of s m r run p events])

lemma restart_loop_call:
  assumes "run \<le> 1 + r" "\<not> stop_before m p"
  shows "restart_loop s m r run p events =
     (case call_of s m p of
        Inl f \<Rightarrow> (events @ [Invoked (evaluations_remaining m p)], Inl f)
      | Inr p' \<Rightarrow>
          if get_evaluations p' = get_evaluations p + get_evaluations_constraints p
          then (events @ [Invoked (evaluations_remaining m p),
                  Warned (get_evaluations p + get_evaluations_constraints p) (get_dimension p * m)],
                Inr p')
          else if get_evaluations p' + get_evaluations_constraints p'
                    < get_evaluations p + get_evaluations_constraints p
          then (events @ [Invoked (evaluations_remaining m p)], Inl Evaluations_decreased)
          else restart_loop s m r (run + 1) p' (events @ [Invoked (evaluations_remaining m p)]))"
  using assms
  by (auto simp: restart_loop.simps [of s m r run p events] stop_before_def Let_def call_of_def)

lemma positive_budget: "\<not> stop_before m p \<Longrightarrow> 0 <s evaluations_remaining m p"
  by (simp add: stop_before_def word_sless_alt word_sle_eq)

lemma restart_loop_events:
  "\<exists>new. fst (restart_loop s m r run p events) = events @ new \<and>
         length (budgets new) \<le> 2 + r - run \<and>
         (\<forall>b\<in>set (budgets new). 0 <s b)"
proof (induction "2 + r - run" arbitrary: run p events rule: less_induct)
  case less
  show ?case
  proof (cases "run \<le> 1 + r")
    case False
    then show ?thesis
      by (intro exI [of _ "[]"]) (simp add: restart_loop_end)
  next
    case True
    show ?thesis
    proof (cases "stop_before m p")
      case stop: True
      then show ?thesis
        using True by (intro exI [of _ "[]"]) (simp add: restart_loop_stop)
    next
      case False
      let ?b = "evaluations_remaining m p"
      have pos: "0 <s ?b" using False by (rule positive_budget)
      have room: "1 \<le> 2 + r - run" using True by simp
      note eq = restart_loop_call [OF True False, of s events]
      show ?thesis
      proof (cases "call_of s m p")
        case (Inl f)
        then show ?thesis
          using eq pos room by (intro exI [of _ "[Invoked ?b]"]) simp
      next
        case (Inr p')
        consider (warn) "get_evaluations p' = get_evaluations p + get_evaluations_constraints p"
          | (fatal) "get_evaluations p' \<noteq> get_evaluations p + get_evaluations_constraints p"
              "get_evaluations p' + get_evaluations_constraints p'
                    < get_evaluations p + get_evaluations_constraints p"
          | (again) "get_evaluations p' \<noteq> get_evaluations p + get_evaluations_constraints p"
              "\<not> get_evaluations p' + get_evaluations_constraints p'
                    < get_evaluations p + get_evaluations_constraints p"
          by blast
        then show ?thesis
        proof cases
          case warn
          then show ?thesis
            using eq Inr pos room
            by (intro exI [of _ "[Invoked ?b,
                  Warned (get_evaluations p + get_evaluations_constraints p) (get_dimension p * m)]"])
               simp
        next
          case fatal
          then show ?thesis
            using eq Inr pos room by (intro exI [of _ "[Invoked ?b]"]) simp
        next
          case again
          have eq': "restart_loop s m r run p events =
              restart_loop s m r (run + 1) p' (events @ [Invoked ?b])"
            using eq Inr again by simp
          have "2 + r - (run + 1) < 2 + r - run" using True by simp
          from less.hyps [OF this, of p' "events @ [Invoked ?b]"]
          obtain new where
            n: "fst (restart_loop s m r (run + 1) p' (events @ [Invoked ?b])) =
                  (events @ [Invoked ?b]) @ new"
            and l: "length (budgets new) \<le> 2 + r - (run + 1)"
            and a: "\<forall>b\<in>set (budgets new). 0 <s b"
            by blast
          have n': "fst (restart_loop s m r run p events) = events @ (Invoked ?b # new)"
            using eq' n by simp
          have l': "length (budgets (Invoked ?b # new)) \<le> 2 + r - run"
            using l True by simp
          have a': "\<forall>b\<in>set (budgets (Invoked ?b # new)). 0 <s b" using a pos by simp
          show ?thesis by (intro exI [of _ "Invoked ?b # new"] conjI n' l' a')
        qed
      qed
    qed
  qed
qed


lemma decreased_is_fatal:
  assumes "run \<le> 1 + r" "\<not> stop_before m p" "call_of s m p = Inr p'"
    and "unat (get_evaluations p) + unat (get_evaluations_constraints p) < 2 ^ 64"
    and "unat (get_evaluations p') + unat (get_evaluations_constraints p')
          < unat (get_evaluations p) + unat (get_evaluations_constraints p)"
  shows "restart_loop s m r run p events =
           (events @ [Invoked (evaluations_remaining m p)], Inl Evaluations_decreased)"
proof -
  let ?done = "get_evaluations p + get_evaluations_constraints p"
  have u: "unat ?done = unat (get_evaluations p) + unat (get_evaluations_constraints p)"
    using assms(4) by (simp add: unat_add_lem [THEN iffD1])
  have "unat (get_evaluations p') + unat (get_evaluations_constraints p') < 2 ^ 64"
    using assms(4,5) by simp
  then have u': "unat (get_evaluations p' + get_evaluations_constraints p') =
      unat (get_evaluations p') + unat (get_evaluations_constraints p')"
    by (simp add: unat_add_lem [THEN iffD1])
  have "unat (get_evaluations p') < unat ?done" using u assms(5) by simp
  then have ne: "get_evaluations p' \<noteq> ?done" by auto
  have lt: "get_evaluations p' + get_evaluations_constraints p' < ?done"
    using u u' assms(5) by (simp add: word_less_nat_alt)
  show ?thesis
    using restart_loop_call [OF assms(1,2), of s events] assms(3) ne lt by simp
qed






lemma suite_loop_failure:
  assumes "accepted firstFunction lastFunction prevDimension cnt p"
    and "snd (restart_loop search BUDGET_MULTIPLIER INDEPENDENT_RESTARTS 1 p []) = Inl f"
  shows "suite_loop search fl clock firstFunction lastFunction (p # suite) prevDimension cnt
           timing_data tick = Inl f"
  using assms by (simp add: accepted_def Let_def)

text \<open>
  Claim C5. Whenever the strategy returns with counters whose sum is strictly less than
  the sum read before the call (sums that fit in 64 bits), the loop calls \<open>coco_error\<close>:
  it ends with the failure \<open>Evaluations_decreased\<close>. In the experiment, where this happens
  at the first run for a problem that is not skipped, the loop over the suite ends with
  this failure whatever problems are left.
\<close>

theorem evaluation_count_regression_fatal:
  assumes "run \<le> 1 + restarts" "\<not> stop_before multiplier p"
    and "call_of search multiplier p = Inr p'"
    and "unat (get_evaluations p) + unat (get_evaluations_constraints p) < 2 ^ 64"
    and "unat (get_evaluations p') + unat (get_evaluations_constraints p')
          < unat (get_evaluations p) + unat (get_evaluations_constraints p)"
  shows "snd (restart_loop search multiplier restarts run p events) = Inl Evaluations_decreased \<and>
         (multiplier = BUDGET_MULTIPLIER \<and> restarts = INDEPENDENT_RESTARTS \<and> run = 1 \<and>
          accepted firstFunction lastFunction prevDimension cnt p \<longrightarrow>
            suite_loop search fl clock firstFunction lastFunction (p # suite) prevDimension cnt
              timing_data tick = Inl Evaluations_decreased)"
proof (intro conjI impI)
  show "snd (restart_loop search multiplier restarts run p events) = Inl Evaluations_decreased"
    using decreased_is_fatal [OF assms, of events] by simp
next
  assume c: "multiplier = BUDGET_MULTIPLIER \<and> restarts = INDEPENDENT_RESTARTS \<and> run = 1 \<and>
          accepted firstFunction lastFunction prevDimension cnt p"
  have "snd (restart_loop search multiplier restarts run p []) = Inl Evaluations_decreased"
    using decreased_is_fatal [OF assms, of "[]"] by simp
  with c have "snd (restart_loop search BUDGET_MULTIPLIER INDEPENDENT_RESTARTS 1 p [])
      = Inl Evaluations_decreased" by simp
  with c show "suite_loop search fl clock firstFunction lastFunction (p # suite) prevDimension
      cnt timing_data tick = Inl Evaluations_decreased"
    by (intro suite_loop_failure) simp_all
qed

theorem evaluation_count_regression_fatal_witness:
  "snd (restart_loop forgetful BUDGET_MULTIPLIER INDEPENDENT_RESTARTS 1
          ((fresh_problem 1 1 [-5, -5] [5, 5])
             \<lparr>get_evaluations := 5, get_evaluations_constraints := 5\<rparr>) [])
     = Inl Evaluations_decreased \<and>
   suite_loop forgetful binary64 (\<lambda>k. int k) 1 48
     [(fresh_problem 1 1 [-5, -5] [5, 5])
        \<lparr>get_evaluations := 5, get_evaluations_constraints := 5\<rparr>,
      fresh_problem 1 1 [-5, -5] [5, 5]] 0 1
     (fst (timing_data_initialize (\<lambda>k. int k) 5 0)) 2
     = Inl Evaluations_decreased"
proof -
  let ?P = "(fresh_problem 1 1 [-5, -5] [5, 5])
             \<lparr>get_evaluations := 5, get_evaluations_constraints := 5\<rparr>"
  let ?P' = "?P\<lparr>get_evaluations := 0, get_evaluations_constraints := 0\<rparr>"
  have h1: "(1::nat) \<le> 1 + INDEPENDENT_RESTARTS" by simp
  have h2: "\<not> stop_before BUDGET_MULTIPLIER ?P"
    by (simp add: stop_before_def evaluations_remaining_def fresh_problem_def
        BUDGET_MULTIPLIER_def word_sle_eq)
  have h3: "call_of forgetful BUDGET_MULTIPLIER ?P = Inr ?P'"
    by (simp add: call_of_def forgetful_def)
  have h4: "unat (get_evaluations ?P) + unat (get_evaluations_constraints ?P) < 2 ^ 64"
    by simp
  have h5: "unat (get_evaluations ?P') + unat (get_evaluations_constraints ?P')
          < unat (get_evaluations ?P) + unat (get_evaluations_constraints ?P)"
    by simp
  have acc: "accepted 1 48 0 1 ?P"
    by (simp add: accepted_def nInstances_def)
  note t = evaluation_count_regression_fatal [OF h1 h2 h3 h4 h5, where events = "[]"
      and firstFunction = 1 and lastFunction = 48 and prevDimension = 0 and cnt = 1
      and fl = binary64 and clock = "\<lambda>k. int k"
      and suite = "[fresh_problem 1 1 [-5, -5] [5, 5]]"
      and timing_data = "fst (timing_data_initialize (\<lambda>k. int k) 5 0)" and tick = 2]
  note a = t [THEN conjunct1]
  have b: "suite_loop forgetful binary64 (\<lambda>k. int k) 1 48
     [?P, fresh_problem 1 1 [-5, -5] [5, 5]] 0 1
     (fst (timing_data_initialize (\<lambda>k. int k) 5 0)) 2 = Inl Evaluations_decreased"
    using t [THEN conjunct2] acc by simp
  show ?thesis by (intro conjI a b)
qed

text \<open>
  Claim C4 does not hold of the code. The warning is given when the objective counter
  after the call equals the sum of both counters before the call; the constraint counter
  after the call is not looked at. With one restart and a solver that returns at once,
  the second call performs the two warm-up evaluations and the loop still warns (the
  objective counter went from 1 to 2, the sum before was 2); the same happens without
  restarts for a problem that arrives with one evaluation of each kind. And a strategy
  that evaluates nothing on such a problem is called again without a warning.
\<close>

theorem warning_condition_misses_constraints:
  "(\<exists>p'. restart_loop (directed_search (\<lambda>l u i. Terminated ''sigma'')) BUDGET_MULTIPLIER 1 1
            (fresh_problem 1 1 [-5, -5] [5, 5]) []
          = ([Invoked 200000, Invoked 199998, Warned 2 200000], Inr p') \<and>
          calls (history p') = [(Constraint, [-5, -5]), (Objective, [-5, -5]),
                                (Constraint, [-5, -5]), (Objective, [-5, -5])]) \<and>
   (\<exists>p'. restart_loop (directed_search (\<lambda>l u i. Terminated ''sigma'')) BUDGET_MULTIPLIER
            INDEPENDENT_RESTARTS 1
            ((fresh_problem 1 1 [-5, -5] [5, 5])
               \<lparr>get_evaluations := 1, get_evaluations_constraints := 1\<rparr>) []
          = ([Invoked 199998, Warned 2 200000], Inr p') \<and>
          calls (history p') = [(Constraint, [-5, -5]), (Objective, [-5, -5])]) \<and>
   restart_loop idle BUDGET_MULTIPLIER 1 1
     ((fresh_problem 1 1 [-5, -5] [5, 5])
        \<lparr>get_evaluations := 1, get_evaluations_constraints := 1\<rparr>) []
     = ([Invoked 199998, Invoked 199998],
        Inr ((fresh_problem 1 1 [-5, -5] [5, 5])
               \<lparr>get_evaluations := 1, get_evaluations_constraints := 1\<rparr>))"
  by (simp add: restart_loop.simps evaluations_remaining_def fresh_problem_def
      BUDGET_MULTIPLIER_def INDEPENDENT_RESTARTS_def Let_def directed_search_def
      my_search_def idle_def calls_def evaluate_function_def evaluate_constraint_def word_sle_eq
      coco_evaluate_function_def coco_evaluate_constraint_def)

text \<open>
  Claim C2, as the code has it. The restart loop never calls the strategy with a budget
  that is not positive. In \<open>my_search\<close> the two warm-up evaluations are made whatever the
  counters are; every later evaluation is made at a moment when the sum of the two
  counters does not exceed \<open>max_budget\<close>, whether \<open>my_search\<close> then returns or is left by an
  exception it does not catch. \<open>my_random_search\<close> makes \<open>max_budget\<close> rounds, of one or two
  evaluations each, and does not read the counters.
\<close>

theorem budget_respected:
  assumes "number_of_objectives = 1" "0 < number_of_constraints"
    and "dimension \<le> length lower" "dimension \<le> length upper"
  shows "list_all (\<lambda>b. 0 <s b) (budgets (fst (restart_loop search multiplier restarts 1 q []))) \<and>
         (\<exists>res p' later.
            my_search RayEs dimension number_of_objectives number_of_constraints lower upper
              max_budget p = (res, p') \<and>
            ((\<exists>path printed. res = Inr (path, printed)) \<or> res = Inl Uncaught_throwable) \<and>
            history p' = history p @ warm_up_pair p @ later \<and>
            list_all (\<lambda>ev. count_before ev \<le> max_budget) later) \<and>
         (\<exists>p' g' new xs.
            my_random_search fl uniform dimension k lower upper rounds_budget p g
              = Inr (p', g') \<and>
            history p' = history p @ new \<and>
            length xs = rounds_budget \<and>
            calls new = rounds k xs)"
proof -
  from restart_loop_events [of search multiplier restarts 1 q "[]"]
  have d: "list_all (\<lambda>b. 0 <s b) (budgets (fst (restart_loop search multiplier restarts 1 q [])))"
    by (auto simp: list_all_iff)
  from my_search_warm_up [OF assms(1,2), of RayEs dimension lower upper max_budget p]
  obtain res p' later where
    r: "my_search RayEs dimension number_of_objectives number_of_constraints lower upper
             max_budget p = (res, p')"
    and n: "(\<exists>path printed. res = Inr (path, printed)) \<or> res = Inl Uncaught_throwable"
    and h: "history p' = history p @ warm_up_pair p @ later"
    and a: "\<forall>ev\<in>set later. count_before ev \<le> max_budget"
    by blast
  have a': "list_all (\<lambda>ev. count_before ev \<le> max_budget) later"
    using a by (simp add: list_all_iff)
  have m: "\<exists>res p' later.
            my_search RayEs dimension number_of_objectives number_of_constraints lower upper
              max_budget p = (res, p') \<and>
            ((\<exists>path printed. res = Inr (path, printed)) \<or> res = Inl Uncaught_throwable) \<and>
            history p' = history p @ warm_up_pair p @ later \<and>
            list_all (\<lambda>ev. count_before ev \<le> max_budget) later"
    by (intro exI [of _ res] exI [of _ p'] exI [of _ later] conjI r n h a')
  from my_random_search_rounds [OF assms(3,4), of fl uniform k rounds_budget p g]
  have s: "\<exists>p' g' new xs.
            my_random_search fl uniform dimension k lower upper rounds_budget p g
              = Inr (p', g') \<and>
            history p' = history p @ new \<and>
            length xs = rounds_budget \<and>
            calls new = rounds k xs"
    by blast
  show ?thesis by (intro conjI d m s)
qed

theorem budget_respected_witness:
  "(1::nat) = 1 \<and> (0::nat) < 1 \<and> 2 \<le> length [-5, -5::real] \<and> 2 \<le> length [5, 5::real] \<and>
   list_all (\<lambda>b. 0 <s b)
     (budgets (fst (restart_loop (directed_search (\<lambda>l u i. Eval_func i (\<lambda>y. Terminated ''sigma'')))
        BUDGET_MULTIPLIER INDEPENDENT_RESTARTS 1 (fresh_problem 1 1 [-5, -5] [5, 5]) []))) \<and>
   (\<exists>res p' later.
      my_search (\<lambda>l u i. Eval_func i (\<lambda>y. Terminated ''sigma'')) 2 1 1 [-5, -5] [5, 5] 200000
        (fresh_problem 1 1 [-5, -5] [5, 5]) = (res, p') \<and>
      ((\<exists>path printed. res = Inr (path, printed)) \<or> res = Inl Uncaught_throwable) \<and>
      history p' = history (fresh_problem 1 1 [-5, -5] [5, 5])
                   @ warm_up_pair (fresh_problem 1 1 [-5, -5] [5, 5]) @ later \<and>
      list_all (\<lambda>ev. count_before ev \<le> 200000) later) \<and>
   (\<exists>p' g' new xs.
      my_random_search exact (\<lambda>g::nat. (1 / 2, g + 1)) 2 0 [-5, -5] [5, 5] 3
        (fresh_problem 1 1 [-5, -5] [5, 5]) 0 = Inr (p', g') \<and>
      history p' = history (fresh_problem 1 1 [-5, -5] [5, 5]) @ new \<and>
      length xs = 3 \<and> calls new = rounds 0 xs)"
proof -
  let ?R = "\<lambda>l u i. Eval_func i (\<lambda>y. Terminated ''sigma'')"
  let ?P = "fresh_problem 1 1 [-5, -5] [5, 5]"
  have h1: "(1::nat) = 1" and h2: "(0::nat) < 1"
    and h3: "2 \<le> length [-5, -5::real]" and h4: "2 \<le> length [5, 5::real]" by simp_all
  note t = budget_respected [OF h1 h2 h3 h4, where search = "directed_search ?R"
      and multiplier = BUDGET_MULTIPLIER and restarts = INDEPENDENT_RESTARTS and q = ?P
      and RayEs = ?R and max_budget = 200000 and p = ?P and fl = exact
      and uniform = "\<lambda>g::nat. (1 / 2, g + 1)" and k = 0 and rounds_budget = 3 and g = 0]
  note a = t [THEN conjunct1]
  note b = t [THEN conjunct2, THEN conjunct1]
  note c = t [THEN conjunct2, THEN conjunct2]
  show ?thesis by (intro conjI h1 h2 h3 h4 a b c)
qed

text \<open>
  The claim as stated, that no evaluation starts once the sum of the counters has reached
  \<open>max_budget\<close>, fails: with \<open>max_budget = 1\<close> the objective evaluation of the warm-up pair
  of \<open>my_search\<close> starts when the sum is already 1, and so does the constraint evaluation of
  the only round of \<open>my_random_search\<close>.
\<close>

theorem budget_reached_counterexample:
  "(\<exists>p'.
     my_search (\<lambda>l u i. Eval_func i (\<lambda>y. Terminated ''sigma'')) 2 1 1 [-5, -5] [5, 5] 1
       (fresh_problem 1 1 [-5, -5] [5, 5]) = (Inr (Budget_exhausted, []), p') \<and>
     history p' = [Evaluation Constraint [-5, -5] 0, Evaluation Objective [-5, -5] 1] \<and>
     \<not> list_all (\<lambda>ev. count_before ev < 1) (history p')) \<and>
   (\<exists>p' g'.
     my_random_search exact (\<lambda>g::nat. (1 / 2, g + 1)) 1 1 [0] [1] 1
       (fresh_problem 1 1 [0] [1]) 0 = Inr (p', g') \<and>
     history p' = [Evaluation Objective [1 / 2] 0, Evaluation Constraint [1 / 2] 1] \<and>
     \<not> list_all (\<lambda>ev. count_before ev < 1) (history p'))"
proof (intro conjI)
  show "\<exists>p'.
     my_search (\<lambda>l u i. Eval_func i (\<lambda>y. Terminated ''sigma'')) 2 1 1 [-5, -5] [5, 5] 1
       (fresh_problem 1 1 [-5, -5] [5, 5]) = (Inr (Budget_exhausted, []), p') \<and>
     history p' = [Evaluation Constraint [-5, -5] 0, Evaluation Objective [-5, -5] 1] \<and>
     \<not> list_all (\<lambda>ev. count_before ev < 1) (history p')"
    by (simp add: my_search_def fresh_problem_def evaluate_function_def evaluate_constraint_def
        coco_evaluate_function_def coco_evaluate_constraint_def evalFuncWrapper_def Let_def)
  show "\<exists>p' g'.
     my_random_search exact (\<lambda>g::nat. (1 / 2, g + 1)) 1 1 [0] [1] 1
       (fresh_problem 1 1 [0] [1]) 0 = Inr (p', g') \<and>
     history p' = [Evaluation Objective [1 / 2] 0, Evaluation Constraint [1 / 2] 1] \<and>
     \<not> list_all (\<lambda>ev. count_before ev < 1) (history p')"
    by (simp add: my_random_search_def random_loop.simps random_point.simps
        evaluate_function_def evaluate_constraint_def coco_evaluate_function_def
        coco_evaluate_constraint_def fresh_problem_def dadd_def dmul_def dsub_def exact_def
        Let_def)
qed

section \<open>Rounding keeps the sign\<close>

lemma round_half_even_ge_floor: "\<lfloor>y\<rfloor> \<le> round_half_even y"
  by (simp add: round_half_even_def Let_def)

lemma round_half_even_le_ceiling: "round_half_even y \<le> \<lceil>y\<rceil>"
proof (cases "y = of_int \<lfloor>y\<rfloor>")
  case True
  then have "round_half_even y = \<lfloor>y\<rfloor>" by (simp add: round_half_even_def Let_def)
  then show ?thesis by (simp add: floor_le_ceiling)
next
  case False
  then have "\<lceil>y\<rceil> = \<lfloor>y\<rfloor> + 1" by (simp add: ceiling_altdef)
  then show ?thesis by (simp add: round_half_even_def Let_def)
qed

lemma expo_lower: 
  assumes "x \<noteq> 0"
  shows "2 powi (expo x) \<le> \<bar>x\<bar>"
proof (cases "1 \<le> \<bar>x\<bar>")
  case True
  let ?n = "nat \<lfloor>\<bar>x\<bar>\<rfloor>"
  let ?k = "floorlog 2 ?n"
  have n: "0 < ?n" using True by simp
  then have k: "0 < ?k" by (simp add: floorlog_def)
  from floorlog_bounds [OF n, of 2] have "2 ^ (?k - 1) \<le> ?n" by simp
  then have "(2::real) ^ (?k - 1) \<le> real ?n"
    by (metis of_nat_le_iff of_nat_numeral of_nat_power)
  also have "real ?n \<le> \<bar>x\<bar>" using True by simp
  finally have "(2::real) ^ (?k - 1) \<le> \<bar>x\<bar>" .
  moreover have "expo x = int (?k - 1)" using True k by (simp add: expo_def)
  ultimately show ?thesis by simp
next
  case False
  let ?n = "nat (\<lceil>1 / \<bar>x\<bar>\<rceil> - 1)"
  let ?k = "floorlog 2 ?n"
  have x: "0 < \<bar>x\<bar>" "\<bar>x\<bar> < 1" using assms False by simp_all
  then have "1 < 1 / \<bar>x\<bar>" by simp
  then have c: "2 \<le> \<lceil>1 / \<bar>x\<bar>\<rceil>" by linarith
  then have n: "0 < ?n" by simp
  from floorlog_bounds [OF n, of 2] have "?n < 2 ^ ?k" by simp
  then have "int ?n < 2 ^ ?k" by (metis of_nat_less_iff of_nat_numeral of_nat_power)
  moreover have "int ?n = \<lceil>1 / \<bar>x\<bar>\<rceil> - 1" using c by linarith
  ultimately have "\<lceil>1 / \<bar>x\<bar>\<rceil> \<le> 2 ^ ?k" by linarith
  then have "1 / \<bar>x\<bar> \<le> 2 ^ ?k" by (simp add: ceiling_le_iff)
  then have "1 \<le> 2 ^ ?k * \<bar>x\<bar>" using x by (simp add: field_simps)
  then have "1 / 2 ^ ?k \<le> \<bar>x\<bar>" by (simp add: field_simps)
  moreover have "expo x = - int ?k" using False by (simp add: expo_def)
  ultimately show ?thesis by (simp add: power_int_minus field_simps)
qed

lemma ulp_le:
  assumes "x \<noteq> 0"
  shows "2 powi (expo x - 52) \<le> \<bar>x\<bar>"
proof -
  have "(2::real) powi (expo x - 52) \<le> 2 powi (expo x)"
    by (rule power_int_increasing) simp_all
  with expo_lower [OF assms] show ?thesis by linarith
qed

lemma binary64_zero: "binary64 0 = 0"
  by (simp add: binary64_def)

lemma binary64_pos:
  assumes "0 < x"
  shows "0 < binary64 x"
proof -
  let ?u = "(2::real) powi (expo x - 52)"
  have u: "0 < ?u" by simp
  have "?u \<le> x" using ulp_le [of x] assms by simp
  then have "1 \<le> x / ?u" using u by (simp add: field_simps)
  then have "1 \<le> \<lfloor>x / ?u\<rfloor>" by linarith
  with round_half_even_ge_floor [of "x / ?u"] have "0 < round_half_even (x / ?u)" by linarith
  then have "0 < real_of_int (round_half_even (x / ?u)) * ?u" using u by simp
  then show ?thesis using assms by (simp add: binary64_def Let_def)
qed

lemma binary64_neg:
  assumes "x < 0"
  shows "binary64 x < 0"
proof -
  let ?u = "(2::real) powi (expo x - 52)"
  have u: "0 < ?u" by simp
  have "?u \<le> - x" using ulp_le [of x] assms by simp
  then have "x / ?u \<le> - 1" using u by (simp add: field_simps)
  then have "\<lceil>x / ?u\<rceil> \<le> - 1" by linarith
  with round_half_even_le_ceiling [of "x / ?u"] have "round_half_even (x / ?u) < 0" by linarith
  then have "real_of_int (round_half_even (x / ?u)) * ?u < 0" using u
    by (simp add: mult_less_0_iff)
  then show ?thesis using assms by (simp add: binary64_def Let_def)
qed

lemma binary64_sign: "0 < binary64 x \<longleftrightarrow> 0 < x"
  using binary64_pos [of x] binary64_neg [of x] binary64_zero
  by (cases "x = 0"; cases "0 < x") (auto simp: not_less less_le)

section \<open>Timing\<close>

lemma output_existing_none:
  "cumulative_evaluations td = 0 \<Longrightarrow> output_existing fl clock td tick = Inr (td, tick)"
  by (simp add: output_existing_def)

lemma output_existing_some:
  assumes "cumulative_evaluations td \<noteq> 0" "current_idx td < length (outputs td)"
  shows "\<exists>td'. output_existing fl clock td tick = Inr (td', tick + 1) \<and>
           current_idx td' = current_idx td + 1 \<and>
           length (outputs td') = length (outputs td) \<and>
           previous_dimension td' = previous_dimension td \<and>
           cumulative_evaluations td' = cumulative_evaluations td"
  using assms by (simp add: output_existing_def Let_def word_greater_zero_iff)

lemma output_existing_ok:
  assumes "cumulative_evaluations td \<noteq> 0 \<longrightarrow> current_idx td < length (outputs td)"
  shows "\<exists>td' tick'. output_existing fl clock td tick = Inr (td', tick') \<and>
           current_idx td' = current_idx td + (if cumulative_evaluations td = 0 then 0 else 1) \<and>
           length (outputs td') = length (outputs td) \<and>
           previous_dimension td' = previous_dimension td"
proof (cases "cumulative_evaluations td = 0")
  case True
  then show ?thesis by (simp add: output_existing_none)
next
  case False
  with assms have "current_idx td < length (outputs td)" by simp
  from output_existing_some [OF False this, of fl clock tick] False show ?thesis by auto
qed

lemma time_problems_ok:
  assumes "length (outputs td) = n"
    and "current_idx td + length (remdups_adj (previous_dimension td # map get_dimension ps))
           \<le> n + (if cumulative_evaluations td = 0 \<and>
                     (ps = [] \<or> get_dimension (hd ps) \<noteq> previous_dimension td) then 1 else 0)"
  shows "\<exists>td' tick'. time_problems fl clock td ps tick = Inr (td', tick') \<and>
           length (outputs td') = n \<and>
           (cumulative_evaluations td' \<noteq> 0 \<longrightarrow> current_idx td' < n)"
  using assms
proof (induction ps arbitrary: td tick)
  case Nil
  then have "cumulative_evaluations td \<noteq> 0 \<longrightarrow> current_idx td < n"
    by (auto split: if_splits)
  with Nil show ?case by simp
next
  case (Cons q ps)
  let ?d = "get_dimension q"
  let ?L = "length (remdups_adj (?d # map get_dimension ps))"
  have L1: "1 \<le> ?L" by (cases "remdups_adj (?d # map get_dimension ps)") simp_all
  show ?case
  proof (cases "previous_dimension td = ?d")
    case True
    let ?td2 = "td\<lparr>cumulative_evaluations := cumulative_evaluations td + get_evaluations q\<rparr>"
    have step: "timing_data_time_problem fl clock td (Some q) tick = Inr (?td2, tick)"
      using True by simp
    have "current_idx td + ?L \<le> n" using Cons.prems(2) True by simp
    then have pre: "current_idx ?td2
        + length (remdups_adj (previous_dimension ?td2 # map get_dimension ps))
        \<le> n + (if cumulative_evaluations ?td2 = 0 \<and>
                     (ps = [] \<or> get_dimension (hd ps) \<noteq> previous_dimension ?td2) then 1 else 0)"
      using True by simp
    have len: "length (outputs ?td2) = n" using Cons.prems(1) by simp
    from Cons.IH [OF len pre, of tick] step show ?thesis by simp
  next
    case False
    have hyp: "current_idx td + (1 + ?L) \<le> n + (if cumulative_evaluations td = 0 then 1 else 0)"
      using Cons.prems(2) False by simp
    then have "cumulative_evaluations td \<noteq> 0 \<longrightarrow> current_idx td < length (outputs td)"
      using Cons.prems(1) L1 by (auto split: if_splits)
    from output_existing_ok [OF this, of fl clock tick]
    obtain td1 tick1 where
      o: "output_existing fl clock td tick = Inr (td1, tick1)"
      and i1: "current_idx td1 = current_idx td + (if cumulative_evaluations td = 0 then 0 else 1)"
      and l1: "length (outputs td1) = length (outputs td)"
      by blast
    let ?td2 = "td1\<lparr>previous_dimension := ?d, cumulative_evaluations := get_evaluations q,
                     start_time := clock tick1\<rparr>"
    have step: "timing_data_time_problem fl clock td (Some q) tick = Inr (?td2, tick1 + 1)"
      using False o by simp
    have "current_idx td1 + ?L \<le> n" using hyp i1 by (auto split: if_splits)
    then have pre: "current_idx ?td2
        + length (remdups_adj (previous_dimension ?td2 # map get_dimension ps))
        \<le> n + (if cumulative_evaluations ?td2 = 0 \<and>
                     (ps = [] \<or> get_dimension (hd ps) \<noteq> previous_dimension ?td2) then 1 else 0)"
      by simp
    have len: "length (outputs ?td2) = n" using Cons.prems(1) l1 by simp
    from Cons.IH [OF len pre, of "tick1 + 1"] step show ?thesis by simp
  qed
qed

lemma initial_runs:
  "length (remdups_adj ((0::size_t) # ds))
     \<le> length (remdups_adj ds) + (if ds = [] \<or> hd ds \<noteq> 0 then 1 else 0)"
  by (cases ds) simp_all

lemma timing_of_stream_ok:
  assumes "dimension_runs problems \<le> dimension_idx + 1"
  shows "\<exists>result. timing_of_stream fl clock dimension_idx problems = Inr result"
proof -
  let ?n = "dimension_idx + 1"
  define td where "td = fst (timing_data_initialize clock dimension_idx 0)"
  have init: "timing_data_initialize clock dimension_idx 0 = (td, 2)"
    by (simp add: td_def timing_data_initialize_def)
  have len: "length (outputs td) = ?n" by (simp add: td_def timing_data_initialize_def)
  have f: "current_idx td = 0" "previous_dimension td = 0" "cumulative_evaluations td = 0"
    by (simp_all add: td_def timing_data_initialize_def)
  have "problems = [] \<or> hd (map get_dimension problems) = get_dimension (hd problems)"
    by (cases problems) simp_all
  then have pre: "current_idx td
      + length (remdups_adj (previous_dimension td # map get_dimension problems))
      \<le> ?n + (if cumulative_evaluations td = 0 \<and>
                  (problems = [] \<or> get_dimension (hd problems) \<noteq> previous_dimension td)
                then 1 else 0)"
    using initial_runs [of "map get_dimension problems"] assms
    by (auto simp: f dimension_runs_def split: if_splits)
  from time_problems_ok [OF len pre, of fl clock 2]
  obtain td' tick' where
    t: "time_problems fl clock td problems 2 = Inr (td', tick')"
    and l: "length (outputs td') = ?n"
    and c: "cumulative_evaluations td' \<noteq> 0 \<longrightarrow> current_idx td' < ?n"
    by blast
  from c l have "cumulative_evaluations td' \<noteq> 0 \<longrightarrow> current_idx td' < length (outputs td')"
    by simp
  from output_existing_ok [OF this, of fl clock tick']
  obtain td2 tick2 where o: "output_existing fl clock td' tick' = Inr (td2, tick2)" by blast
  show ?thesis
    using init t o by (simp add: timing_of_stream_def timing_data_finalize_def Let_def)
qed

lemma seconds_per_evaluation_sign:
  assumes "fl = exact \<or> fl = binary64" "0 < n"
  shows "0 < seconds_per_evaluation fl time1 time0 n \<longleftrightarrow> time0 < time1"
proof -
  have s: "0 < fl x \<longleftrightarrow> 0 < x" for x
  proof (cases "fl = exact")
    case True
    then show ?thesis by (simp add: exact_def)
  next
    case False
    with assms(1) have "fl = binary64" by simp
    then show ?thesis by (simp only: binary64_sign)
  qed
  have "0 < uint n" using assms(2) by (simp add: word_less_def)
  then have "0 < real_of_int (uint n)" by (simp only: of_int_0_less_iff)
  then have d: "0 < fl (real_of_int (uint n))" by (simp only: s)
  have "0 < seconds_per_evaluation fl time1 time0 n \<longleftrightarrow>
        0 < fl (real_of_int (time1 - time0)) / fl (real_of_int (uint n))"
    by (simp add: seconds_per_evaluation_def ddiv_def difftime_def to_double_def s)
  also have "\<dots> \<longleftrightarrow> 0 < fl (real_of_int (time1 - time0))"
    using d by (simp add: zero_less_divide_iff)
  also have "\<dots> \<longleftrightarrow> time0 < time1" by (simp add: s)
  finally show ?thesis .
qed

lemma total_elapsed_same:
  assumes "fl = exact \<or> fl = binary64"
  shows "total_elapsed fl t t = (0, 0, 0)"
proof -
  have "fl 0 = 0" using assms binary64_zero by (cases "fl = exact") (simp_all add: exact_def)
  then show ?thesis
    by (simp add: total_elapsed_def difftime_def to_double_def to_int_def)
qed

lemma map_filter_nones: "List.map_filter (\<lambda>x. x) (replicate k None) = []"
  by (induction k) (simp_all add: List.map_filter_def)

lemma time_problem_first:
  assumes "previous_dimension td \<noteq> get_dimension q" "cumulative_evaluations td = 0"
  shows "timing_data_time_problem fl clock td (Some q) tick =
           Inr (td\<lparr>previous_dimension := get_dimension q,
                    cumulative_evaluations := get_evaluations q,
                    start_time := clock tick\<rparr>, Suc tick)"
  using assms by (simp add: output_existing_def)

lemma time_problem_same:
  assumes "previous_dimension td = get_dimension q"
  shows "timing_data_time_problem fl clock td (Some q) tick =
           Inr (td\<lparr>cumulative_evaluations := cumulative_evaluations td + get_evaluations q\<rparr>,
                tick)"
  using assms by simp

lemma time_problem_next:
  assumes "previous_dimension td \<noteq> get_dimension q" "cumulative_evaluations td \<noteq> 0"
    "current_idx td < length (outputs td)"
  shows "timing_data_time_problem fl clock td (Some q) tick =
           Inr (td\<lparr>outputs := (outputs td)[current_idx td :=
                      Some (Summary (previous_dimension td)
                        (seconds_per_evaluation fl (clock tick) (start_time td)
                           (cumulative_evaluations td)))],
                    current_idx := Suc (current_idx td),
                    previous_dimension := get_dimension q,
                    cumulative_evaluations := get_evaluations q,
                    start_time := clock (Suc tick)\<rparr>, Suc (Suc tick))"
  using assms
  by (simp add: output_existing_def seconds_per_evaluation_def Let_def word_greater_zero_iff)

lemma finalize_last:
  assumes "cumulative_evaluations td \<noteq> 0" "current_idx td < length (outputs td)"
  shows "timing_data_finalize fl clock td tick =
           Inr (List.map_filter (\<lambda>x. x)
                  (take (number_of_dimensions td)
                     ((outputs td)[current_idx td :=
                        Some (Summary (previous_dimension td)
                          (seconds_per_evaluation fl (clock tick) (start_time td)
                             (cumulative_evaluations td)))])),
                total_elapsed fl (clock (Suc tick)) (overall_start_time td))"
  using assms
  by (simp add: timing_data_finalize_def output_existing_def seconds_per_evaluation_def
      total_elapsed_def Let_def word_greater_zero_iff)

lemma finalize_nothing:
  assumes "cumulative_evaluations td = 0"
  shows "timing_data_finalize fl clock td tick =
           Inr (List.map_filter (\<lambda>x. x) (take (number_of_dimensions td) (outputs td)),
                total_elapsed fl (clock tick) (overall_start_time td))"
  using assms
  by (simp add: timing_data_finalize_def output_existing_def total_elapsed_def Let_def)

lemma timing_of_empty_stream:
  "timing_of_stream fl clock dimension_idx [] = Inr ([], total_elapsed fl (clock 2) (clock 1))"
proof -
  let ?td = "\<lparr>number_of_dimensions = dimension_idx + 1, current_idx = 0,
      outputs = replicate (dimension_idx + 1) None, previous_dimension = 0,
      cumulative_evaluations = 0, start_time = clock 0, overall_start_time = clock 1\<rparr>"
  have i: "timing_data_initialize clock dimension_idx 0 = (?td, 2)"
    by (simp add: timing_data_initialize_def)
  have tk: "List.map_filter (\<lambda>x. x)
      (take (dimension_idx + 1) (replicate (dimension_idx + 1) (None :: summary option))) = []"
    by (simp only: take_replicate min.idem map_filter_nones)
  have f: "timing_data_finalize fl clock ?td 2 =
      Inr ([], total_elapsed fl (clock 2) (clock 1))"
    by (subst finalize_nothing) (simp_all only: timing_data_t.simps tk)
  show ?thesis
    by (simp only: timing_of_stream_def i Let_def prod.case time_problems.simps sum.case f)
qed

lemma timing_of_six:
  assumes "get_dimension p1 = 2" "get_dimension p2 = 2" "get_dimension p3 = 3"
    "get_dimension p4 = 3" "get_dimension p5 = 3" "get_dimension p6 = 5"
    and "get_evaluations p1 + get_evaluations p2 \<noteq> 0"
    and "get_evaluations p3 + get_evaluations p4 + get_evaluations p5 \<noteq> 0"
    and "get_evaluations p6 \<noteq> 0"
    and "2 \<le> dimension_idx"
  shows "timing_of_stream fl clock dimension_idx [p1, p2, p3, p4, p5, p6] =
           Inr ([Summary 2 (seconds_per_evaluation fl (clock 3) (clock 2)
                              (get_evaluations p1 + get_evaluations p2)),
                 Summary 3 (seconds_per_evaluation fl (clock 5) (clock 4)
                              (get_evaluations p3 + get_evaluations p4 + get_evaluations p5)),
                 Summary 5 (seconds_per_evaluation fl (clock 7) (clock 6) (get_evaluations p6))],
                total_elapsed fl (clock 8) (clock 1))"
proof -
  from assms(10) obtain k where k: "dimension_idx = k + 2"
    by (metis add.commute le_Suc_ex)
  define R where "R = replicate k (None :: summary option)"
  define e12 where "e12 = get_evaluations p1 + get_evaluations p2"
  define e345 where "e345 = get_evaluations p3 + get_evaluations p4 + get_evaluations p5"
  define l2 where "l2 = Summary 2 (seconds_per_evaluation fl (clock 3) (clock 2) e12)"
  define l3 where "l3 = Summary 3 (seconds_per_evaluation fl (clock 5) (clock 4) e345)"
  define l5 where "l5 = Summary 5 (seconds_per_evaluation fl (clock 7) (clock 6) (get_evaluations p6))"
  let ?S = "\<lambda>i out d c t. \<lparr>number_of_dimensions = Suc (Suc (Suc k)), current_idx = i,
      outputs = out, previous_dimension = d, cumulative_evaluations = c, start_time = t,
      overall_start_time = clock 1\<rparr>"
  have i: "timing_data_initialize clock dimension_idx 0 =
      (?S 0 (None # None # None # R) 0 0 (clock 0), 2)"
    by (simp add: timing_data_initialize_def k R_def)
  have a1: "timing_data_time_problem fl clock (?S 0 (None # None # None # R) 0 0 (clock 0))
      (Some p1) 2 = Inr (?S 0 (None # None # None # R) 2 (get_evaluations p1) (clock 2), 3)"
    by (subst time_problem_first) (simp_all add: assms(1))
  have a2: "timing_data_time_problem fl clock
      (?S 0 (None # None # None # R) 2 (get_evaluations p1) (clock 2)) (Some p2) 3 =
      Inr (?S 0 (None # None # None # R) 2 e12 (clock 2), 3)"
    by (subst time_problem_same) (simp_all add: assms(2) e12_def)
  have a3: "timing_data_time_problem fl clock (?S 0 (None # None # None # R) 2 e12 (clock 2))
      (Some p3) 3 = Inr (?S 1 (Some l2 # None # None # R) 3 (get_evaluations p3) (clock 4), 5)"
    using assms(7)
    by (subst time_problem_next) (simp_all add: assms(3) e12_def l2_def)
  have a4: "timing_data_time_problem fl clock
      (?S 1 (Some l2 # None # None # R) 3 (get_evaluations p3) (clock 4)) (Some p4) 5 =
      Inr (?S 1 (Some l2 # None # None # R) 3 (get_evaluations p3 + get_evaluations p4)
             (clock 4), 5)"
    by (subst time_problem_same) (simp_all add: assms(4))
  have a5: "timing_data_time_problem fl clock
      (?S 1 (Some l2 # None # None # R) 3 (get_evaluations p3 + get_evaluations p4) (clock 4))
      (Some p5) 5 = Inr (?S 1 (Some l2 # None # None # R) 3 e345 (clock 4), 5)"
    by (subst time_problem_same) (simp_all add: assms(5) e345_def)
  have a6: "timing_data_time_problem fl clock (?S 1 (Some l2 # None # None # R) 3 e345 (clock 4))
      (Some p6) 5 =
      Inr (?S 2 (Some l2 # Some l3 # None # R) 5 (get_evaluations p6) (clock 6), 7)"
    using assms(8)
    by (subst time_problem_next) (simp_all add: assms(6) e345_def l3_def)
  have t: "time_problems fl clock (?S 0 (None # None # None # R) 0 0 (clock 0))
      [p1, p2, p3, p4, p5, p6] 2 =
      Inr (?S 2 (Some l2 # Some l3 # None # R) 5 (get_evaluations p6) (clock 6), 7)"
    by (simp only: time_problems.simps a1 a2 a3 a4 a5 a6 sum.case prod.case)
  have u: "(Some l2 # Some l3 # None # R)[2 := Some l5] = Some l2 # Some l3 # Some l5 # R"
    by (simp add: eval_nat_numeral)
  have tk: "take (Suc (Suc (Suc k))) (Some l2 # Some l3 # Some l5 # R) =
      Some l2 # Some l3 # Some l5 # R"
    by (simp add: R_def)
  have m: "List.map_filter (\<lambda>x. x) (Some l2 # Some l3 # Some l5 # R) = [l2, l3, l5]"
    by (simp add: map_filter_simps R_def map_filter_nones)
  have lt: "(2::nat) < length (Some l2 # Some l3 # None # R)" by simp
  have s8: "Suc 7 = 8" by simp
  have f: "timing_data_finalize fl clock
      (?S 2 (Some l2 # Some l3 # None # R) 5 (get_evaluations p6) (clock 6)) 7 =
      Inr ([l2, l3, l5], total_elapsed fl (clock 8) (clock 1))"
    by (subst finalize_last)
      (simp_all only: timing_data_t.simps assms(9) lt l5_def [symmetric] u tk m s8
        not_False_eq_True)
  show ?thesis
    by (simp only: timing_of_stream_def i Let_def prod.case t sum.case f)
      (simp add: l2_def l3_def l5_def e12_def e345_def)
qed

lemma word_sum_nonzero:
  fixes a b :: size_t
  assumes "unat a + unat b < 2 ^ 64" "0 < a \<or> 0 < b"
  shows "a + b \<noteq> 0"
proof -
  have "unat (a + b) = unat a + unat b"
    using assms(1) by (simp add: unat_add_lem [THEN iffD1])
  moreover have "0 < unat a + unat b"
    using assms(2) by (auto simp: word_less_nat_alt)
  ultimately show ?thesis by (metis less_numeral_extra(3) unat_0)
qed

lemma timed_simps:
  "get_dimension (timed d e) = of_nat d" "get_evaluations (timed d e) = e"
  by (simp_all add: timed_def fresh_problem_def)

lemma binary64_one: "binary64 1 = 1"
  by (simp add: binary64_def expo_def round_half_even_def compute_floorlog Let_def
      power_int_minus)

lemma round_half_even_of_int: "round_half_even (of_int m) = m"
  by (simp add: round_half_even_def Let_def)

lemma binary64_int:
  assumes "0 < d" "d < 2 ^ 53"
  shows "binary64 (of_int d) = of_int d"
proof -
  let ?n = "nat d"
  let ?k = "floorlog 2 ?n"
  have n: "0 < ?n" using assms by simp
  from floorlog_bounds [OF n, of 2] have lo: "2 ^ (?k - 1) \<le> ?n" by simp
  have "?n < 2 ^ 53" using assms by (simp add: nat_less_iff)
  with lo have "(2::nat) ^ (?k - 1) < 2 ^ 53" by linarith
  then have "?k - 1 < 53" by (rule power_less_imp_less_exp [rotated]) simp
  then have k: "?k \<le> 53" by simp
  have x: "\<bar>real_of_int d\<bar> = real_of_int d" "1 \<le> real_of_int d" using assms by simp_all
  have fl: "nat \<lfloor>real_of_int d\<rfloor> = ?n" by simp
  have e: "expo (of_int d) = int ?k - 1" using x by (simp add: expo_def)
  have u: "(2::real) powi (expo (of_int d) - 52) = 1 / 2 ^ (53 - ?k)"
  proof -
    have "expo (real_of_int d) - 52 = - int (53 - ?k)" using e k by simp
    then have "(2::real) powi (expo (of_int d) - 52) = 2 powi (- int (53 - ?k))"
      by (simp only:)
    also have "\<dots> = 1 / 2 ^ (53 - ?k)"
      by (simp only: power_int_minus power_int_of_nat inverse_eq_divide)
    finally show ?thesis .
  qed
  have q: "real_of_int d / (1 / 2 ^ (53 - ?k)) = of_int (d * 2 ^ (53 - ?k))" by simp
  have "binary64 (of_int d) =
      of_int (round_half_even (real_of_int d / (1 / 2 ^ (53 - ?k)))) * (1 / 2 ^ (53 - ?k))"
    using assms u by (simp add: binary64_def Let_def)
  also have "\<dots> = of_int (d * 2 ^ (53 - ?k)) * (1 / 2 ^ (53 - ?k))"
    by (simp only: q round_half_even_of_int)
  also have "\<dots> = of_int d" by simp
  finally show ?thesis .
qed

lemma to_int_of_int:
  assumes "- (2 ^ 31) \<le> d" "d < 2 ^ 31"
  shows "to_int (of_int d) = d"
  using assms by (simp add: to_int_def Let_def)

lemma hms:
  fixes t :: int
  assumes "0 \<le> t"
  shows "t sdiv 3600 = t div 3600" "(t smod 3600) sdiv 60 = (t mod 3600) div 60"
    "t - (t div 3600) * 3600 - ((t mod 3600) div 60) * 60 = t mod 60"
proof -
  show a: "t sdiv 3600 = t div 3600"
    using assms by (cases "t = 0") (simp_all add: signed_divide_int_def)
  have m: "t smod 3600 = t mod 3600"
    using assms by (cases "t = 0") (simp_all add: signed_modulo_int_def)
  have "0 \<le> t mod 3600" by simp
  then show b: "(t smod 3600) sdiv 60 = (t mod 3600) div 60"
    unfolding m by (cases "t mod 3600 = 0") (simp_all add: signed_divide_int_def)
  have "(t mod 3600) mod 60 = t mod 60" by (simp add: mod_mod_cancel)
  moreover have "t mod 3600 = 60 * ((t mod 3600) div 60) + (t mod 3600) mod 60" by simp
  moreover have "t = 3600 * (t div 3600) + t mod 3600" by simp
  ultimately show "t - (t div 3600) * 3600 - ((t mod 3600) div 60) * 60 = t mod 60"
    by linarith
qed

lemma total_elapsed_value:
  assumes "fl = exact \<or> fl = binary64" "time0 \<le> time1" "time1 - time0 < 2 ^ 31"
  shows "total_elapsed fl time1 time0 =
           ((time1 - time0) div 3600, ((time1 - time0) mod 3600) div 60, (time1 - time0) mod 60)"
proof -
  let ?d = "time1 - time0"
  have d: "0 \<le> ?d" using assms(2) by simp
  have "fl (of_int ?d) = of_int ?d"
  proof (cases "fl = exact")
    case True
    then show ?thesis by (simp add: exact_def)
  next
    case False
    with assms(1) have b: "fl = binary64" by simp
    show ?thesis
    proof (cases "?d = 0")
      case True
      then show ?thesis using b by (simp add: binary64_def)
    next
      case False
      with d have "0 < ?d" by simp
      moreover have "?d < 2 ^ 53" using assms(3) by simp
      ultimately show ?thesis unfolding b by (rule binary64_int)
    qed
  qed
  then have "to_int (difftime fl time1 time0) = to_int (of_int ?d)"
    by (simp add: difftime_def to_double_def)
  also have "\<dots> = ?d" using d assms(3) by (intro to_int_of_int) simp_all
  finally have t: "to_int (difftime fl time1 time0) = ?d" .
  show ?thesis
    unfolding total_elapsed_def Let_def t
    by (simp only: hms [OF d])
qed

text \<open>
  From a clock difference of \<open>2^31\<close> seconds on the cast is out of range, and the total
  printed is that of the least \<open>int\<close>.
\<close>

lemma total_elapsed_out_of_range:
  "total_elapsed binary64 (2 ^ 31) 0 = (- 596523, - 14, - 8)"
proof -
  have "binary64 (of_int (2 ^ 31)) = of_int (2 ^ 31)"
    by (rule binary64_int) simp_all
  then have "to_int (difftime binary64 (2 ^ 31) 0) = - (2 ^ 31)"
    by (simp add: difftime_def to_double_def to_int_def Let_def)
  then show ?thesis
    by (simp add: total_elapsed_def Let_def signed_divide_int_def signed_modulo_int_def)
qed

lemma to_int_range: "- (2 ^ 31) \<le> to_int x \<and> to_int x < 2 ^ 31"
  by (simp add: to_int_def Let_def)

lemma sdiv_smod_3600:
  fixes t :: int
  shows "\<bar>t sdiv 3600 * 3600\<bar> \<le> \<bar>t\<bar>" "\<bar>t smod 3600\<bar> < 3600"
    "t - t sdiv 3600 * 3600 = t smod 3600"
    "\<bar>(t smod 3600) sdiv 60 * 60\<bar> \<le> \<bar>t smod 3600\<bar>"
    "\<bar>t smod 3600 - (t smod 3600) sdiv 60 * 60\<bar> < 60"
proof -
  have d: "\<bar>k sdiv l * l\<bar> \<le> \<bar>k\<bar>" if "0 < l" for k l :: int
  proof -
    have "0 \<le> \<bar>k\<bar> div l" using that by (simp add: pos_imp_zdiv_nonneg_iff)
    then have "\<bar>k sdiv l * l\<bar> = (\<bar>k\<bar> div l) * l"
      using that by (cases "k = 0") (simp_all add: signed_divide_int_def abs_mult abs_sgn_eq)
    also have "\<dots> \<le> \<bar>k\<bar>"
    proof -
      have "\<bar>k\<bar> = (\<bar>k\<bar> div l) * l + \<bar>k\<bar> mod l" by simp
      moreover have "0 \<le> \<bar>k\<bar> mod l" using that by simp
      ultimately show ?thesis by linarith
    qed
    finally show ?thesis .
  qed
  show "\<bar>t sdiv 3600 * 3600\<bar> \<le> \<bar>t\<bar>" by (rule d) simp
  show "\<bar>(t smod 3600) sdiv 60 * 60\<bar> \<le> \<bar>t smod 3600\<bar>" by (rule d) simp
  have m: "\<bar>k smod l\<bar> < l" if "0 < l" for k l :: int
    using that by (simp add: signed_modulo_int_def abs_mult abs_sgn_eq)
  show "\<bar>t smod 3600\<bar> < 3600" by (rule m) simp
  have r: "k - k sdiv l * l = k smod l" for k l :: int
    by (rule minus_sdiv_mult_eq_smod)
  show "t - t sdiv 3600 * 3600 = t smod 3600" by (rule r)
  have "t smod 3600 - (t smod 3600) sdiv 60 * 60 = (t smod 3600) smod 60" by (rule r)
  moreover have "\<bar>(t smod 3600) smod 60\<bar> < 60" by (rule m) simp
  ultimately show "\<bar>t smod 3600 - (t smod 3600) sdiv 60 * 60\<bar> < 60" by simp
qed

text \<open>
  For every value of the cast, each \<open>int\<close> that \<open>timing_data_finalize\<close> computes from it is
  within the range of \<open>int\<close>.
\<close>

lemma finalize_int_range:
  fixes t :: int
  assumes "- (2 ^ 31) \<le> t" "t < 2 ^ 31"
  shows "\<bar>t sdiv 3600\<bar> < 2 ^ 31" "\<bar>t sdiv 3600 * 3600\<bar> < 2 ^ 31"
    "\<bar>t smod 3600\<bar> < 2 ^ 31" "\<bar>(t smod 3600) sdiv 60\<bar> < 2 ^ 31"
    "\<bar>(t smod 3600) sdiv 60 * 60\<bar> < 2 ^ 31"
    "\<bar>t - t sdiv 3600 * 3600\<bar> < 2 ^ 31"
    "\<bar>t - t sdiv 3600 * 3600 - (t smod 3600) sdiv 60 * 60\<bar> < 2 ^ 31"
proof -
  have t: "\<bar>t\<bar> \<le> 2147483648" using assms by simp
  have "\<bar>t sdiv 3600\<bar> * 3600 = \<bar>t sdiv 3600 * 3600\<bar>" by (simp add: abs_mult)
  with sdiv_smod_3600(1) [of t] t have "\<bar>t sdiv 3600\<bar> * 3600 \<le> 2147483648" by linarith
  then have h: "\<bar>t sdiv 3600\<bar> \<le> 596523" by linarith
  then show "\<bar>t sdiv 3600\<bar> < 2 ^ 31" by simp
  have "\<bar>t sdiv 3600 * 3600\<bar> = \<bar>t sdiv 3600\<bar> * 3600" by (simp add: abs_mult)
  with h show "\<bar>t sdiv 3600 * 3600\<bar> < 2 ^ 31" by simp
  from sdiv_smod_3600(2) [of t] show m: "\<bar>t smod 3600\<bar> < 2 ^ 31" by simp
  have "\<bar>(t smod 3600) sdiv 60\<bar> * 60 = \<bar>(t smod 3600) sdiv 60 * 60\<bar>" by (simp add: abs_mult)
  with sdiv_smod_3600(2,4) [of t] have q: "\<bar>(t smod 3600) sdiv 60 * 60\<bar> < 3600"
    and q': "\<bar>(t smod 3600) sdiv 60\<bar> * 60 < 3600" by linarith+
  from q' have "\<bar>(t smod 3600) sdiv 60\<bar> < 60" by linarith
  then show "\<bar>(t smod 3600) sdiv 60\<bar> < 2 ^ 31" by simp
  from q show "\<bar>(t smod 3600) sdiv 60 * 60\<bar> < 2 ^ 31" by simp
  from m show "\<bar>t - t sdiv 3600 * 3600\<bar> < 2 ^ 31" by (simp only: sdiv_smod_3600(3))
  from sdiv_smod_3600(5) [of t]
  show "\<bar>t - t sdiv 3600 * 3600 - (t smod 3600) sdiv 60 * 60\<bar> < 2 ^ 31"
    by (simp only: sdiv_smod_3600(3)) simp
qed

text \<open>
  Claim C9, as the code has it. For processed problems of dimensions 2, 2, 3, 3, 3, 5 with
  positive evaluation counts (whose sums per dimension fit in 64 bits) and an output
  array of at least three slots, the timing calls followed by \<open>timing_data_finalize\<close> print
  exactly three summary lines, for the dimensions 2, 3 and 5 in this order. The value of
  each line is the difference of the clock reading at the end of the group and the one at
  its start, divided by the evaluations of the group; it is strictly positive exactly when
  the clock has advanced between the two readings. The total printed last is computed
  from the readings at the end and at the initialisation; when their difference is at
  least 0 and below \<open>2^31\<close> seconds, it is this difference in hours, minutes and seconds.
  After an empty stream no summary line is printed, and the total is that of two equal
  readings, 0h00m00s, when the clock has not advanced.
\<close>

theorem timing_summary_lines:
  assumes "get_dimension p1 = 2" "get_dimension p2 = 2" "get_dimension p3 = 3"
    "get_dimension p4 = 3" "get_dimension p5 = 3" "get_dimension p6 = 5"
    and "0 < get_evaluations p1" "0 < get_evaluations p2" "0 < get_evaluations p3"
      "0 < get_evaluations p4" "0 < get_evaluations p5" "0 < get_evaluations p6"
    and "unat (get_evaluations p1) + unat (get_evaluations p2) < 2 ^ 64"
    and "unat (get_evaluations p3) + unat (get_evaluations p4) + unat (get_evaluations p5)
          < 2 ^ 64"
    and "2 \<le> dimension_idx"
  shows "timing_of_stream fl clock dimension_idx [p1, p2, p3, p4, p5, p6] =
           Inr ([Summary 2 (seconds_per_evaluation fl (clock 3) (clock 2)
                              (get_evaluations p1 + get_evaluations p2)),
                 Summary 3 (seconds_per_evaluation fl (clock 5) (clock 4)
                              (get_evaluations p3 + get_evaluations p4 + get_evaluations p5)),
                 Summary 5 (seconds_per_evaluation fl (clock 7) (clock 6) (get_evaluations p6))],
                total_elapsed fl (clock 8) (clock 1)) \<and>
         timing_of_stream fl clock dimension_idx [] =
           Inr ([], total_elapsed fl (clock 2) (clock 1)) \<and>
         (fl = exact \<or> fl = binary64 \<longrightarrow>
            (\<forall>time1 time0 n. 0 < n \<longrightarrow>
               (0 < seconds_per_evaluation fl time1 time0 n \<longleftrightarrow> time0 < time1)) \<and>
            (\<forall>t. total_elapsed fl t t = (0, 0, 0)) \<and>
            (\<forall>time1 time0. time0 \<le> time1 \<and> time1 - time0 < 2 ^ 31 \<longrightarrow>
               total_elapsed fl time1 time0 =
                 ((time1 - time0) div 3600, ((time1 - time0) mod 3600) div 60,
                  (time1 - time0) mod 60)))"
proof (intro conjI impI allI)
  have s12: "get_evaluations p1 + get_evaluations p2 \<noteq> 0"
    using assms(13) assms(7) by (intro word_sum_nonzero) simp_all
  have "unat (get_evaluations p3) + unat (get_evaluations p4) < 2 ^ 64"
    using assms(14) by simp
  then have u34: "unat (get_evaluations p3 + get_evaluations p4) =
      unat (get_evaluations p3) + unat (get_evaluations p4)"
    by (simp add: unat_add_lem [THEN iffD1])
  have s345: "get_evaluations p3 + get_evaluations p4 + get_evaluations p5 \<noteq> 0"
    using assms(14) assms(11) u34 by (intro word_sum_nonzero) simp_all
  have s6: "get_evaluations p6 \<noteq> 0" using assms(12) by auto
  from timing_of_six [OF assms(1-6) s12 s345 s6 assms(15)]
  show "timing_of_stream fl clock dimension_idx [p1, p2, p3, p4, p5, p6] =
           Inr ([Summary 2 (seconds_per_evaluation fl (clock 3) (clock 2)
                              (get_evaluations p1 + get_evaluations p2)),
                 Summary 3 (seconds_per_evaluation fl (clock 5) (clock 4)
                              (get_evaluations p3 + get_evaluations p4 + get_evaluations p5)),
                 Summary 5 (seconds_per_evaluation fl (clock 7) (clock 6) (get_evaluations p6))],
                total_elapsed fl (clock 8) (clock 1))" .
next
  show "timing_of_stream fl clock dimension_idx [] =
           Inr ([], total_elapsed fl (clock 2) (clock 1))"
    by (rule timing_of_empty_stream)
next
  fix time1 time0 :: int and n :: size_t
  assume "fl = exact \<or> fl = binary64" "0 < n"
  then show "0 < seconds_per_evaluation fl time1 time0 n \<longleftrightarrow> time0 < time1"
    by (rule seconds_per_evaluation_sign)
next
  fix t :: int
  assume "fl = exact \<or> fl = binary64"
  then show "total_elapsed fl t t = (0, 0, 0)" by (rule total_elapsed_same)
next
  fix time1 time0 :: int
  assume f: "fl = exact \<or> fl = binary64" and r: "time0 \<le> time1 \<and> time1 - time0 < 2 ^ 31"
  from r have r1: "time0 \<le> time1" and r2: "time1 - time0 < 2 ^ 31" by simp_all
  from f r1 r2 show "total_elapsed fl time1 time0 =
                 ((time1 - time0) div 3600, ((time1 - time0) mod 3600) div 60,
                  (time1 - time0) mod 60)"
    by (rule total_elapsed_value)
qed

theorem timing_summary_lines_witness:
  "timing_of_stream binary64 (\<lambda>k. int k * 10) 2
     [timed 2 10, timed 2 20, timed 3 5, timed 3 5, timed 3 5, timed 5 7] =
     Inr ([Summary 2 (seconds_per_evaluation binary64 30 20 30),
           Summary 3 (seconds_per_evaluation binary64 50 40 15),
           Summary 5 (seconds_per_evaluation binary64 70 60 7)],
          0, 1, 10) \<and>
   0 < seconds_per_evaluation binary64 30 20 30 \<and>
   0 < seconds_per_evaluation binary64 50 40 15 \<and>
   0 < seconds_per_evaluation binary64 70 60 7"
proof -
  have d: "get_dimension (timed 2 10) = 2" "get_dimension (timed 2 20) = 2"
    "get_dimension (timed 3 5) = 3" "get_dimension (timed 3 5) = 3"
    "get_dimension (timed 3 5) = 3" "get_dimension (timed 5 7) = 5"
    by (simp_all add: timed_simps)
  have e: "0 < get_evaluations (timed 2 10)" "0 < get_evaluations (timed 2 20)"
    "0 < get_evaluations (timed 3 5)" "0 < get_evaluations (timed 3 5)"
    "0 < get_evaluations (timed 3 5)" "0 < get_evaluations (timed 5 7)"
    by (simp_all add: timed_simps)
  have u: "unat (get_evaluations (timed 2 10)) + unat (get_evaluations (timed 2 20)) < 2 ^ 64"
    "unat (get_evaluations (timed 3 5)) + unat (get_evaluations (timed 3 5))
       + unat (get_evaluations (timed 3 5)) < 2 ^ 64"
    by (simp_all add: timed_simps)
  have i: "(2::nat) \<le> 2" by simp
  note t = timing_summary_lines [OF d e u i, of binary64 "\<lambda>k. int k * 10"]
  from t have v: "\<And>time1 time0. time0 \<le> time1 \<and> time1 - time0 < 2 ^ 31 \<Longrightarrow>
      total_elapsed binary64 time1 time0 =
        ((time1 - time0) div 3600, ((time1 - time0) mod 3600) div 60, (time1 - time0) mod 60)"
    by blast
  have tot: "total_elapsed binary64 80 10 = (0, 1, 10)" by (subst v) simp_all
  from t have l: "timing_of_stream binary64 (\<lambda>k. int k * 10) 2
     [timed 2 10, timed 2 20, timed 3 5, timed 3 5, timed 3 5, timed 5 7] =
     Inr ([Summary 2 (seconds_per_evaluation binary64 30 20 30),
           Summary 3 (seconds_per_evaluation binary64 50 40 15),
           Summary 5 (seconds_per_evaluation binary64 70 60 7)],
          0, 1, 10)"
    by (simp add: timed_simps tot)
  from t have s: "\<And>time1 time0 n. (0::size_t) < n \<Longrightarrow>
      (0 < seconds_per_evaluation binary64 time1 time0 n) = (time0 < time1)"
    by blast
  have p1: "0 < seconds_per_evaluation binary64 30 20 30" by (subst s) simp_all
  have p2: "0 < seconds_per_evaluation binary64 50 40 15" by (subst s) simp_all
  have p3: "0 < seconds_per_evaluation binary64 70 60 7" by (subst s) simp_all
  show ?thesis by (intro conjI l p1 p2 p3)
qed

text \<open>
  The claim as stated fails for a clock that does not advance: \<open>time()\<close> counts whole
  seconds, and when all readings of a run fall into the same second every summary line
  reports 0 seconds per evaluation. And after an empty stream the total is not zero when
  the clock ticks between the initialisation and the finalisation.
\<close>

theorem timing_clock_counterexample:
  "timing_of_stream binary64 (\<lambda>k. 0) 2
     [timed 2 10, timed 2 20, timed 3 5, timed 3 5, timed 3 5, timed 5 7] =
     Inr ([Summary 2 0, Summary 3 0, Summary 5 0], 0, 0, 0) \<and>
   timing_of_stream binary64 (\<lambda>k. int k) 2 [] = Inr ([], 0, 0, 1)"
proof -
  have z: "seconds_per_evaluation binary64 0 0 n = 0" for n
    by (simp add: seconds_per_evaluation_def ddiv_def difftime_def to_double_def binary64_zero)
  have t0: "total_elapsed binary64 0 0 = (0, 0, 0)"
    by (rule total_elapsed_same) simp
  have a: "timing_of_stream binary64 (\<lambda>k. 0) 2
     [timed 2 10, timed 2 20, timed 3 5, timed 3 5, timed 3 5, timed 5 7] =
     Inr ([Summary 2 0, Summary 3 0, Summary 5 0], 0, 0, 0)"
    by (subst timing_of_six) (simp_all add: timed_simps z t0)
  have t1: "total_elapsed binary64 2 1 = (0, 0, 1)"
    by (simp add: total_elapsed_def difftime_def to_double_def to_int_def binary64_one
        signed_divide_int_def signed_modulo_int_def)
  have b: "timing_of_stream binary64 (\<lambda>k. int k) 2 [] = Inr ([], 0, 0, 1)"
    by (simp add: timing_of_empty_stream t1)
  show ?thesis by (intro conjI a b)
qed

text \<open>
  Claim C10. For every stream of processed problems whose dimensions form at most
  \<open>number_of_dimensions = dimension_idx + 1\<close> maximal runs of equal dimension, every write
  of a summary into \<open>output[current_idx]\<close>, the one of the final call with \<open>NULL\<close> included,
  is at an index below \<open>number_of_dimensions\<close>: the timing calls never end with
  \<open>Out_of_bounds\<close>.
\<close>

theorem timing_output_within_bounds:
  assumes "dimension_runs problems \<le> dimension_idx + 1"
  shows "\<exists>printed total. timing_of_stream fl clock dimension_idx problems = Inr (printed, total)"
  using timing_of_stream_ok [OF assms, of fl clock] by auto

theorem timing_output_within_bounds_witness:
  "dimension_runs [timed 2 10, timed 2 20, timed 3 5, timed 3 5, timed 3 5, timed 5 7] \<le> 2 + 1 \<and>
   (\<exists>printed total. timing_of_stream binary64 (\<lambda>k. int k) 2
      [timed 2 10, timed 2 20, timed 3 5, timed 3 5, timed 3 5, timed 5 7] = Inr (printed, total))"
proof -
  have r: "dimension_runs [timed 2 10, timed 2 20, timed 3 5, timed 3 5, timed 3 5, timed 5 7]
      \<le> 2 + 1"
    by (simp add: dimension_runs_def timed_simps)
  from timing_output_within_bounds [OF r] r show ?thesis by blast
qed

text \<open>With more runs than slots the last write is out of bounds.\<close>

lemma timing_output_overflow:
  "timing_of_stream exact (\<lambda>k. int k) 1
     [timed 2 10, timed 3 5, timed 5 7] = Inl Out_of_bounds"
  by (simp add: timing_of_stream_def timing_data_initialize_def timing_data_finalize_def
      output_existing_def timed_simps Let_def)

end
